theory Spec2Isabelle
  imports Complex_Main "HOL-Library.Multiset"
begin

section \<open>Numbers\<close>

text \<open>
  The scoring engine of \<^verbatim>\<open>scoring.ts\<close> computes with JavaScript numbers, which are
  IEEE 754 doubles. Counts and time values are integers below \<open>2 ^ 53\<close>, where doubles
  are exact, and are modelled by \<open>nat\<close> and \<open>int\<close>. Fractions (the subscores, the
  average of sessions per active day, a difference of time values divided by the length of
  a day) are modelled by the rational number that the double holds, and every division,
  product, sum and difference of doubles is rounded to the nearest double (ties to the
  even significand) by \<open>fl\<close>, as the hardware does. All magnitudes that occur lie between
  \<open>2 ^ -1022\<close> and \<open>2 ^ 1024\<close>, and no divisor is zero (\<open>totalDays\<close> is 28, the
  average is taken over a positive number of days only), so subnormal numbers, infinities
  and NaN do not arise and are not modelled.
\<close>

function bitLength :: "int \<Rightarrow> int" where
  "bitLength n = (if n \<le> 0 then 0 else 1 + bitLength (n div 2))"
  by pat_completeness auto
termination
  by (relation "measure nat") auto

declare bitLength.simps [simp del]

definition pow2 :: "int \<Rightarrow> rat" where
  "pow2 e = (if 0 \<le> e then 2 ^ nat e else 1 / 2 ^ nat (- e))"

definition binExponent :: "rat \<Rightarrow> int" where
  \<comment> \<open>for \<open>x \<noteq> 0\<close>, the \<open>e\<close> with \<open>2 ^ e \<le> \<bar>x\<bar> < 2 ^ (e + 1)\<close>\<close>
  "binExponent x =
     (let (a, b) = quotient_of \<bar>x\<bar>;
          e = bitLength a - bitLength b
      in if pow2 e \<le> \<bar>x\<bar> then e else e - 1)"

definition roundHalfEven :: "rat \<Rightarrow> int" where
  "roundHalfEven x =
     (let n = \<lfloor>x\<rfloor>; r = x - of_int n
      in if r < 1 / 2 then n else if 1 / 2 < r then n + 1 else if even n then n else n + 1)"

definition fl :: "rat \<Rightarrow> rat" where
  \<comment> \<open>the double nearest to \<open>x\<close>: 53 significant bits\<close>
  "fl x = (if x = 0 then 0
           else let q = pow2 (binExponent x - 52) in of_int (roundHalfEven (x / q)) * q)"

definition fdiv :: "rat \<Rightarrow> rat \<Rightarrow> rat" where
  "fdiv x y = fl (x / y)"

definition fmul :: "rat \<Rightarrow> rat \<Rightarrow> rat" where
  "fmul x y = fl (x * y)"

definition fadd :: "rat \<Rightarrow> rat \<Rightarrow> rat" where
  "fadd x y = fl (x + y)"

definition fsub :: "rat \<Rightarrow> rat \<Rightarrow> rat" where
  "fsub x y = fl (x - y)"

definition Math_floor :: "rat \<Rightarrow> int" where
  "Math_floor x = \<lfloor>x\<rfloor>"

definition Math_round :: "rat \<Rightarrow> int" where
  \<comment> \<open>\<^verbatim>\<open>Math.round\<close>: the nearest integer, a tie going up\<close>
  "Math_round x = \<lfloor>x + 1 / 2\<rfloor>"

subsection \<open>Numbers as text\<close>

definition digitChar :: "nat \<Rightarrow> char" where
  "digitChar d = char_of (48 + d)"

function showNat :: "nat \<Rightarrow> string" where
  "showNat n = (if n < 10 then [digitChar n] else showNat (n div 10) @ [digitChar (n mod 10)])"
  by pat_completeness auto
termination
  by (relation "measure id") auto

declare showNat.simps [simp del]

definition showInt :: "int \<Rightarrow> string" where
  \<comment> \<open>a template literal \<^verbatim>\<open>${n}\<close> of an integral number\<close>
  "showInt i = (if i < 0 then ''-'' @ showNat (nat (- i)) else showNat (nat i))"

definition toFixed1 :: "rat \<Rightarrow> string" where
  \<comment> \<open>\<^verbatim>\<open>x.toFixed(1)\<close> for \<open>\<bar>x\<bar> < 10 ^ 21\<close>: the \<open>n\<close> with \<open>n / 10\<close> nearest to the
      exact value of the double, the larger \<open>n\<close> on a tie\<close>
  "toFixed1 x =
     (let a = \<bar>x\<bar>; n = nat \<lfloor>a * 10 + 1 / 2\<rfloor>
      in (if x < 0 then ''-'' else '''') @ showNat (n div 10) @ ''.'' @ showNat (n mod 10))"

section \<open>Dates\<close>

text \<open>
  A \<^verbatim>\<open>Date\<close> holds a time value: milliseconds since the epoch, an integer of
  magnitude at most \<open>8.64 * 10 ^ 15\<close>, or NaN (an Invalid Date), here \<open>None\<close>. Every
  setter passes its result through \<open>TimeClip\<close>, which turns a value beyond the range into
  NaN; \<^verbatim>\<open>toISOString\<close> throws a \<^verbatim>\<open>RangeError\<close> on an Invalid Date.

  The calendar date \<^verbatim>\<open>toISOString().split("T")[0]\<close> of a valid Date is the text
  \<^verbatim>\<open>YYYY-MM-DD\<close> of its UTC day. Distinct days have distinct texts, and
  \<^verbatim>\<open>new Date(key + "T00:00:00Z")\<close> reads the text back as the midnight of that day, so the
  text is represented by the day number it denotes, \<open>IsoDate n\<close> for day \<open>n\<close> since the epoch.
\<close>

type_synonym Date = "int option"

datatype error = RangeError

datatype isoDate = IsoDate int

definition msPerDay :: int where
  "msPerDay = 1000 * 60 * 60 * 24"

definition maxTime :: int where
  "maxTime = 8640000000000000"

definition TimeClip :: "int \<Rightarrow> Date" where
  "TimeClip t = (if maxTime < \<bar>t\<bar> then None else Some t)"

definition Day :: "int \<Rightarrow> int" where
  "Day t = t div msPerDay"

definition TimeWithinDay :: "int \<Rightarrow> int" where
  "TimeWithinDay t = t mod msPerDay"

definition setUTCHours :: "Date \<Rightarrow> int \<Rightarrow> int \<Rightarrow> int \<Rightarrow> int \<Rightarrow> Date" where
  "setUTCHours d h m s ms =
     (case d of
        None \<Rightarrow> None
      | Some t \<Rightarrow> TimeClip (Day t * msPerDay + (((h * 60 + m) * 60 + s) * 1000 + ms)))"

definition addUTCDate :: "Date \<Rightarrow> int \<Rightarrow> Date" where
  \<comment> \<open>\<^verbatim>\<open>d.setUTCDate(d.getUTCDate() + n)\<close>: the same time of day, \<open>n\<close> days later
      (a day of the month out of range carries into the neighbouring months)\<close>
  "addUTCDate d n =
     (case d of
        None \<Rightarrow> None
      | Some t \<Rightarrow> TimeClip ((Day t + n) * msPerDay + TimeWithinDay t))"

definition toISODate :: "Date \<Rightarrow> error + isoDate" where
  \<comment> \<open>\<^verbatim>\<open>d.toISOString().split("T")[0]\<close>\<close>
  "toISODate d = (case d of None \<Rightarrow> Inl RangeError | Some t \<Rightarrow> Inr (IsoDate (Day t)))"

fun parseISODate :: "isoDate \<Rightarrow> int" where
  \<comment> \<open>\<^verbatim>\<open>new Date(key + "T00:00:00Z").getTime()\<close>\<close>
  "parseISODate (IsoDate n) = n * msPerDay"

definition getUTCDay :: "int \<Rightarrow> nat" where
  \<comment> \<open>the weekday of a time value, 0 for Sunday; the epoch was a Thursday\<close>
  "getUTCDay t = nat ((Day t + 4) mod 7)"

definition dateLE :: "Date \<Rightarrow> Date \<Rightarrow> bool" where
  \<comment> \<open>\<^verbatim>\<open>a <= b\<close> on Dates compares the time values; false when either is NaN\<close>
  "dateLE a b = (case a of None \<Rightarrow> False | Some x \<Rightarrow> (case b of None \<Rightarrow> False | Some y \<Rightarrow> x \<le> y))"

section \<open>Data model\<close>

record SessionSummary =
  sessionId :: string
  userId :: string
  startDate :: Date
  endDate :: Date
  durationMinutes :: rat

record DailySessionCount =
  date :: isoDate
  count_d :: nat

record ConsistencyScore =
  score :: int
  explanations :: "string list"
  chartData :: "DailySessionCount list"
  periodStart :: isoDate
  periodEnd :: isoDate

record ConsistencyMetrics =
  totalDays :: nat
  daysWithActivity :: nat
  longestGap :: int
  averageSessionsPerActiveDay :: rat
  weeklyDistribution :: "nat list"
  totalSessions :: nat

text \<open>
  A JavaScript \<^verbatim>\<open>Map\<close> keeps its keys in insertion order: an association list with
  distinct keys, where \<^verbatim>\<open>set\<close> overwrites in place or appends.
\<close>

type_synonym dayMap = "(isoDate \<times> nat) list"

definition Map_get :: "dayMap \<Rightarrow> isoDate \<Rightarrow> nat option" where
  "Map_get m k = map_of m k"

fun Map_set :: "dayMap \<Rightarrow> isoDate \<Rightarrow> nat \<Rightarrow> dayMap" where
  "Map_set [] k v = [(k, v)]"
| "Map_set ((k', v') # m) k v = (if k' = k then (k', v) # m else (k', v') # Map_set m k v)"

definition orZero :: "nat option \<Rightarrow> nat" where
  \<comment> \<open>\<^verbatim>\<open>m.get(key) || 0\<close>\<close>
  "orZero r = (case r of None \<Rightarrow> 0 | Some c \<Rightarrow> c)"

section \<open>The scoring engine\<close>

text \<open>
  The functions of \<^verbatim>\<open>scoring.ts\<close>, in the order of the source. A \<^verbatim>\<open>for\<close> loop
  is a recursive function over what it iterates, its mutable variables passed along;
  \<^verbatim>\<open>push\<close> appends at the end.
\<close>

definition inPeriod :: "int \<Rightarrow> int \<Rightarrow> SessionSummary \<Rightarrow> bool" where
  \<comment> \<open>\<^verbatim>\<open>s.startDate >= periodStart && s.startDate <= periodEnd\<close>\<close>
  "inPeriod pStart pEnd s \<longleftrightarrow> dateLE (Some pStart) (startDate s) \<and> dateLE (startDate s) (Some pEnd)"

definition wholeDays :: "int \<Rightarrow> int \<Rightarrow> int" where
  \<comment> \<open>\<^verbatim>\<open>Math.floor((a.getTime() - b.getTime()) / (1000 * 60 * 60 * 24))\<close>\<close>
  "wholeDays a b = Math_floor (fdiv (fsub (of_int a) (of_int b)) (of_int msPerDay))"

definition calculateLongestGap :: "dayMap \<Rightarrow> int \<Rightarrow> int \<Rightarrow> int" where
  "calculateLongestGap sessionsByDay pStart pEnd =
     (if length sessionsByDay = 0 then 28
      else
        let activeDates = sort (map (\<lambda>d. parseISODate d) (map fst sessionsByDay));
            maxGap = 0;
            firstActivity = activeDates ! 0;
            gapFromStart = wholeDays firstActivity pStart;
            maxGap = max maxGap gapFromStart;
            maxGap = fold (\<lambda>i maxGap.
                       let prev = activeDates ! (i - 1);
                           curr = activeDates ! i;
                           gap = wholeDays curr prev - 1
                       in max maxGap gap) [1..<length activeDates] maxGap;
            lastActivity = activeDates ! (length activeDates - 1);
            gapToEnd = wholeDays pEnd lastActivity;
            maxGap = max maxGap gapToEnd
        in maxGap)"

fun groupSessions :: "SessionSummary list \<Rightarrow> dayMap \<times> nat list \<Rightarrow> error + dayMap \<times> nat list" where
  \<comment> \<open>\<^verbatim>\<open>toISOString\<close> throws on an Invalid Date; a valid one has its day and weekday\<close>
  "groupSessions [] st = Inr st"
| "groupSessions (session # rest) (sessionsByDay, weekly) =
     (case startDate session of
        None \<Rightarrow> Inl RangeError
      | Some t \<Rightarrow>
          let dateKey = IsoDate (Day t);
              sessionsByDay' =
                Map_set sessionsByDay dateKey (orZero (Map_get sessionsByDay dateKey) + 1);
              dayOfWeek = getUTCDay t
          in groupSessions rest (sessionsByDay', weekly[dayOfWeek := weekly ! dayOfWeek + 1]))"

definition calculateMetrics :: "SessionSummary list \<Rightarrow> int \<Rightarrow> int \<Rightarrow> error + ConsistencyMetrics" where
  "calculateMetrics sessions pStart pEnd =
     (let relevantSessions = filter (inPeriod pStart pEnd) sessions
      in case groupSessions relevantSessions ([], [0, 0, 0, 0, 0, 0, 0]) of
           Inl e \<Rightarrow> Inl e
         | Inr (sessionsByDay, weekly) \<Rightarrow>
             let active = length sessionsByDay;
                 gap = calculateLongestGap sessionsByDay pStart pEnd;
                 total = length relevantSessions;
                 average = (if 0 < active then fdiv (of_nat total) (of_nat active) else 0)
             in Inr \<lparr>totalDays = 28, daysWithActivity = active, longestGap = gap,
                     averageSessionsPerActiveDay = average, weeklyDistribution = weekly,
                     totalSessions = total\<rparr>)"

definition calculateFrequencyScore :: "ConsistencyMetrics \<Rightarrow> rat" where
  "calculateFrequencyScore metrics =
     fmul (fdiv (of_nat (daysWithActivity metrics)) (of_nat (totalDays metrics))) 50"

definition calculateGapScore :: "ConsistencyMetrics \<Rightarrow> rat" where
  "calculateGapScore metrics =
     (if longestGap metrics \<le> 3 then 25
      else if 14 \<le> longestGap metrics then 0
      else let normalized = fdiv (of_int (14 - longestGap metrics)) 11 in fmul normalized 25)"

definition activeWeekdays :: "nat list \<Rightarrow> nat" where
  \<comment> \<open>\<^verbatim>\<open>weeklyDistribution.filter((count) => count > 0).length\<close>\<close>
  "activeWeekdays weekly = length (filter (\<lambda>c. 0 < c) weekly)"

definition calculateDistributionScore :: "ConsistencyMetrics \<Rightarrow> rat" where
  "calculateDistributionScore metrics =
     (if daysWithActivity metrics = 0 then 0
      else let daysWithActivityInWeek = activeWeekdays (weeklyDistribution metrics)
           in fmul (fdiv (of_nat daysWithActivityInWeek) 7) 15)"

definition calculateIntensityScore :: "ConsistencyMetrics \<Rightarrow> rat" where
  "calculateIntensityScore metrics =
     (if daysWithActivity metrics = 0 then 0
      else let ratio = averageSessionsPerActiveDay metrics
           in if 2 \<le> ratio then 10 else if ratio \<le> 1 then 0 else fmul (fsub ratio 1) 10)"

definition generateExplanations :: "ConsistencyMetrics \<Rightarrow> string list" where
  "generateExplanations metrics =
     (let out = [];
          out = out @ [''You trained on '' @ showNat (daysWithActivity metrics) @ '' out of 28 days''];
          out = (if longestGap metrics = 0 then out @ [''Amazing! No gaps in your training'']
                 else if longestGap metrics = 1 then out @ [''Longest break: 1 day'']
                 else out @ [''Longest break: '' @ showInt (longestGap metrics) @ '' days'']);
          daysOfWeek = activeWeekdays (weeklyDistribution metrics);
          out = (if 6 \<le> daysOfWeek
                 then out @ [''Great variety! You trained on 6+ different weekdays'']
                 else if 4 \<le> daysOfWeek
                 then out @ [''Good spread across '' @ showNat daysOfWeek @ '' different weekdays'']
                 else if 0 < daysOfWeek
                 then out @ [''Training focused on '' @ showNat daysOfWeek @ '' weekdays'']
                 else out);
          out = (if fl (14 / 10) \<le> averageSessionsPerActiveDay metrics
                 then out @ [''High intensity: '' @ toFixed1 (averageSessionsPerActiveDay metrics)
                               @ '' sessions per active day'']
                 else out)
      in out)"

fun countSessions :: "SessionSummary list \<Rightarrow> dayMap \<Rightarrow> error + dayMap" where
  "countSessions [] countsByDay = Inr countsByDay"
| "countSessions (session # rest) countsByDay =
     (case toISODate (startDate session) of
        Inl e \<Rightarrow> Inl e
      | Inr dateKey \<Rightarrow>
          countSessions rest (Map_set countsByDay dateKey (orZero (Map_get countsByDay dateKey) + 1)))"

fun chartLoop :: "nat \<Rightarrow> Date \<Rightarrow> dayMap \<Rightarrow> DailySessionCount list \<Rightarrow> error + DailySessionCount list" where
  \<comment> \<open>the first argument counts the iterations left of \<^verbatim>\<open>for (let i = 0; i < 28; i++)\<close>\<close>
  "chartLoop 0 current countsByDay chart = Inr chart"
| "chartLoop (Suc n) current countsByDay chart =
     (case toISODate current of
        Inl e \<Rightarrow> Inl e
      | Inr dateKey \<Rightarrow>
          chartLoop n (addUTCDate current 1) countsByDay
            (chart @ [\<lparr>date = dateKey, count_d = orZero (Map_get countsByDay dateKey)\<rparr>]))"

definition generateChartData :: "SessionSummary list \<Rightarrow> int \<Rightarrow> int \<Rightarrow> error + DailySessionCount list" where
  "generateChartData sessions pStart pEnd =
     (let relevantSessions = filter (inPeriod pStart pEnd) sessions
      in case countSessions relevantSessions [] of
           Inl e \<Rightarrow> Inl e
         | Inr countsByDay \<Rightarrow> chartLoop 28 (Some pStart) countsByDay [])"

text \<open>
  The window. When the reference date is an Invalid Date, or so close to an end of the
  range of time values that \<^verbatim>\<open>periodEnd\<close> or \<^verbatim>\<open>periodStart\<close> leaves it, the source
  goes on with an Invalid Date: both comparisons of the filter are false for every
  session, the metrics are those of no session, and the first \<^verbatim>\<open>toISOString\<close> of
  \<^verbatim>\<open>generateChartData\<close> throws. The model returns that \<^verbatim>\<open>RangeError\<close> at once, so
  the functions above take the time values of a valid window.
\<close>

definition windowEnd :: "Date \<Rightarrow> Date" where
  "windowEnd referenceDate = setUTCHours referenceDate 23 59 59 999"

definition windowStart :: "Date \<Rightarrow> Date" where
  "windowStart pEnd = setUTCHours (addUTCDate pEnd (- 27)) 0 0 0 0"

definition calculateConsistencyScore :: "SessionSummary list \<Rightarrow> Date \<Rightarrow> error + ConsistencyScore" where
  "calculateConsistencyScore sessions referenceDate =
     (let pEnd = windowEnd referenceDate;
          pStart = windowStart pEnd
      in case pStart of
           None \<Rightarrow> Inl RangeError
         | Some ps \<Rightarrow>
             (case pEnd of
                None \<Rightarrow> Inl RangeError
              | Some pe \<Rightarrow>
                  (case calculateMetrics sessions ps pe of
                     Inl e \<Rightarrow> Inl e
                   | Inr metrics \<Rightarrow>
                      (let frequencyScore = calculateFrequencyScore metrics;
                           gapScore = calculateGapScore metrics;
                           distributionScore = calculateDistributionScore metrics;
                           intensityScore = calculateIntensityScore metrics;
                           totalScore = Math_round
                             (fadd (fadd (fadd frequencyScore gapScore) distributionScore)
                                intensityScore);
                           out = generateExplanations metrics
                       in (case generateChartData sessions ps pe of
                             Inl e \<Rightarrow> Inl e
                           | Inr chart \<Rightarrow>
                               Inr \<lparr>score = min 100 (max 0 totalScore), explanations = out,
                                     chartData = chart, periodStart = IsoDate (Day ps),
                                     periodEnd = IsoDate (Day pe)\<rparr>)))))"

section \<open>The statements of the specification\<close>

text \<open>
  The definitions of this section follow the words of the specification, to be compared
  with the functions above.
\<close>

subsection \<open>Subscores\<close>

text \<open>
  Rounding half up and clamping, in the words of the specification.
\<close>

definition roundHalfUp :: "rat \<Rightarrow> int" where
  "roundHalfUp x = (if x - of_int \<lfloor>x\<rfloor> < 1 / 2 then \<lfloor>x\<rfloor> else \<lfloor>x\<rfloor> + 1)"

definition clampScore :: "int \<Rightarrow> int" where
  "clampScore v = (if v < 0 then 0 else if 100 < v then 100 else v)"

text \<open>
  The four formulas as the specification writes them, read in two ways: in doubles, every
  operation in the order written (\<open>25 * (14 - g) / 11\<close> is the product divided by 11), and
  in exact arithmetic.
\<close>

definition specFrequency :: "nat \<Rightarrow> rat" where
  "specFrequency d = fmul (fdiv (of_nat d) 28) 50"

definition specGap :: "int \<Rightarrow> rat" where
  "specGap g = (if g \<le> 3 then 25 else if 14 \<le> g then 0 else fdiv (fmul 25 (of_int (14 - g))) 11)"

definition specDistribution :: "nat \<Rightarrow> rat" where
  "specDistribution w = fmul (fdiv (of_nat w) 7) 15"

definition specIntensity :: "nat \<Rightarrow> nat \<Rightarrow> rat" where
  "specIntensity d t =
     (let ratio = fdiv (of_nat t) (of_nat d)
      in if d = 0 \<or> ratio \<le> 1 then 0 else if 2 \<le> ratio then 10 else fmul 10 (fsub ratio 1))"

definition specScore :: "nat \<Rightarrow> int \<Rightarrow> nat \<Rightarrow> nat \<Rightarrow> int" where
  "specScore d g w t =
     clampScore (roundHalfUp
       (fadd (fadd (fadd (specFrequency d) (specGap g)) (specDistribution w)) (specIntensity d t)))"

definition exactScore :: "nat \<Rightarrow> int \<Rightarrow> nat \<Rightarrow> nat \<Rightarrow> int" where
  "exactScore d g w t =
     (let ratio = of_nat t / of_nat d;
          frequency = of_nat d / 28 * 50;
          gap = (if g \<le> 3 then 25 else if 14 \<le> g then 0 else 25 * of_int (14 - g) / 11);
          distribution = of_nat w / 7 * 15;
          intensity = (if d = 0 \<or> ratio \<le> 1 then 0 else if 2 \<le> ratio then 10 else 10 * (ratio - 1))
      in clampScore (roundHalfUp (frequency + gap + distribution + intensity)))"

text \<open>
  The gap formula with the quotient taken first, \<open>((14 - g) / 11) * 25\<close>, and the score
  with that gap subscore, in doubles.
\<close>

definition gapQuotientFirst :: "int \<Rightarrow> rat" where
  "gapQuotientFirst g =
     (if g \<le> 3 then 25 else if 14 \<le> g then 0 else fmul (fdiv (of_int (14 - g)) 11) 25)"

definition doubleScore :: "nat \<Rightarrow> int \<Rightarrow> nat \<Rightarrow> nat \<Rightarrow> int" where
  "doubleScore d g w t =
     clampScore (roundHalfUp
       (fadd (fadd (fadd (specFrequency d) (gapQuotientFirst g)) (specDistribution w))
          (specIntensity d t)))"

subsection \<open>Gaps\<close>

text \<open>
  The active calendar dates of a bucket map, as day numbers in ascending order, and the
  three kinds of gap in the words of the specification: the days strictly between two
  dates, and between consecutive active dates the difference less one.
\<close>

fun dayNumber :: "isoDate \<Rightarrow> int" where
  "dayNumber (IsoDate n) = n"

definition activeDays :: "dayMap \<Rightarrow> int list" where
  "activeDays m = sort (map dayNumber (map fst m))"

definition daysStrictlyBetween :: "int \<Rightarrow> int \<Rightarrow> int" where
  "daysStrictlyBetween a b = int (length (filter (\<lambda>d. a < d \<and> d < b) [a..b]))"

definition interiorGaps :: "int list \<Rightarrow> int list" where
  "interiorGaps ds = map (\<lambda>i. (ds ! i - ds ! (i - 1)) - 1) [1..<length ds]"

definition specLongestGap :: "int list \<Rightarrow> int \<Rightarrow> int \<Rightarrow> int" where
  "specLongestGap ds s e =
     (if ds = [] then 28
      else Max (set (daysStrictlyBetween s (hd ds) # daysStrictlyBetween (last ds) e
                       # interiorGaps ds)))"

subsection \<open>Explanations\<close>

text \<open>
  The sentences of the explanation list: the sentence about the active days, the sentence
  about the longest break with its two distinguished literals, the sentence about the
  weekday spread (none for zero weekdays), and the sentence about intensity when the
  average reaches 1.4.
\<close>

definition trainedSentence :: "nat \<Rightarrow> string" where
  "trainedSentence d = ''You trained on '' @ showNat d @ '' out of 28 days''"

definition gapSentence :: "int \<Rightarrow> string" where
  "gapSentence n =
     (if n = 0 then ''Amazing! No gaps in your training''
      else if n = 1 then ''Longest break: 1 day''
      else ''Longest break: '' @ showInt n @ '' days'')"

definition spreadSentence :: "nat \<Rightarrow> string list" where
  "spreadSentence d =
     (if 6 \<le> d then [''Great variety! You trained on 6+ different weekdays'']
      else if 4 \<le> d \<and> d < 6 then [''Good spread across '' @ showNat d @ '' different weekdays'']
      else if 0 < d \<and> d < 4 then [''Training focused on '' @ showNat d @ '' weekdays'']
      else [])"

definition intensitySentence :: "rat \<Rightarrow> string list" where
  "intensitySentence a =
     (if fl (14 / 10) \<le> a then [''High intensity: '' @ toFixed1 a @ '' sessions per active day'']
      else [])"

subsection \<open>Reference dates\<close>

text \<open>
  A reference date has a representable window when it is a valid Date and both the
  midnight 27 days before its UTC day and the last millisecond of its UTC day are time
  values. Every date that the request validation of the repository admits (at most a year
  back, at most a week ahead) is of this kind.
\<close>

definition representableWindow :: "Date \<Rightarrow> bool" where
  "representableWindow d =
     (case d of
        None \<Rightarrow> False
      | Some t \<Rightarrow> - maxTime \<le> (Day t - 27) * msPerDay \<and> Day t * msPerDay + (msPerDay - 1) \<le> maxTime)"

subsection \<open>The documented walkthrough\<close>

text \<open>
  The walkthrough of the README: reference date 2024-02-15T23:59:59Z (day 19768 since the
  epoch), so the window starts on 2024-01-19 (day 19741); one session at 10:00 UTC on days
  1, 8, 10, 15, 17, 22, 24 and 27 of the window and two on day 5, day 1 being the first
  day of the window.
\<close>

definition walkthroughSession :: "int \<Rightarrow> SessionSummary" where
  "walkthroughSession t =
     \<lparr>sessionId = ''session'', userId = ''test-user'', startDate = Some t,
      endDate = Some (t + 45 * 60000), durationMinutes = 45\<rparr>"

definition walkthrough :: "SessionSummary list" where
  "walkthrough =
     map (\<lambda>d. walkthroughSession ((19741 + d) * msPerDay + 10 * 3600000))
       [0, 4, 4, 7, 9, 14, 16, 21, 23, 26]"

definition walkthroughReference :: Date where
  "walkthroughReference = Some 1708041599000"

text \<open>
  Two more lists for the same reference date. The first has 11 active days (days 5, 11,
  17, 19, 20 and 22 to 27 of the window), six sessions on day 27, a longest gap of 5 days
  and 6 active weekdays. The second has one session on each of the days 2, 5, 8, 11, 14,
  17, 19, 22, 24, 25 and 26: a longest gap of 2 days and 6 active weekdays.
\<close>

definition gapFiveSessions :: "SessionSummary list" where
  "gapFiveSessions =
     map (\<lambda>d. walkthroughSession ((19741 + d) * msPerDay + 10 * 3600000))
       [4, 10, 16, 18, 19, 21, 22, 23, 24, 25, 26, 26, 26, 26, 26, 26]"

definition halfSumSessions :: "SessionSummary list" where
  "halfSumSessions =
     map (\<lambda>d. walkthroughSession ((19741 + d) * msPerDay + 10 * 3600000))
       [1, 4, 7, 10, 13, 16, 18, 21, 23, 24, 25]"

section \<open>Closed forms\<close>

text \<open>
  The sessions of the window are determined by their start times, and what the loops
  compute from them is a fold over those times. The records below collect what
  \<open>calculateConsistencyScore\<close> returns in terms of that list.
\<close>

definition startTimes :: "int \<Rightarrow> int \<Rightarrow> SessionSummary list \<Rightarrow> int list" where
  "startTimes ps pe ss =
     concat (map (\<lambda>s. case startDate s of
                         None \<Rightarrow> []
                       | Some t \<Rightarrow> if ps \<le> t \<and> t \<le> pe then [t] else []) ss)"

definition dayStep :: "int \<Rightarrow> dayMap \<Rightarrow> dayMap" where
  "dayStep t m = Map_set m (IsoDate (Day t)) (orZero (Map_get m (IsoDate (Day t))) + 1)"

definition weekStep :: "int \<Rightarrow> nat list \<Rightarrow> nat list" where
  "weekStep t w = w[getUTCDay t := w ! getUTCDay t + 1]"

definition metricsOf :: "int list \<Rightarrow> int \<Rightarrow> int \<Rightarrow> ConsistencyMetrics" where
  "metricsOf ts ps pe =
     \<lparr>totalDays = 28,
      daysWithActivity = length (fold dayStep ts []),
      longestGap = calculateLongestGap (fold dayStep ts []) ps pe,
      averageSessionsPerActiveDay =
        (if 0 < length (fold dayStep ts [])
         then fdiv (of_nat (length ts)) (of_nat (length (fold dayStep ts []))) else 0),
      weeklyDistribution = fold weekStep ts [0, 0, 0, 0, 0, 0, 0],
      totalSessions = length ts\<rparr>"

definition chartOf :: "int list \<Rightarrow> int \<Rightarrow> DailySessionCount list" where
  "chartOf ts d0 =
     map (\<lambda>i. \<lparr>date = IsoDate (d0 + int i),
                count_d = length (filter (\<lambda>t. Day t = d0 + int i) ts)\<rparr>) [0..<28]"

definition scoreOf :: "ConsistencyMetrics \<Rightarrow> int" where
  "scoreOf m =
     min 100 (max 0 (Math_round
       (fadd (fadd (fadd (calculateFrequencyScore m) (calculateGapScore m))
          (calculateDistributionScore m)) (calculateIntensityScore m))))"

section \<open>Rounding to doubles\<close>

text \<open>
  Rounding moves a positive number by at most the fraction \<open>2 ^ -53\<close> of itself and
  leaves an integer below \<open>2 ^ 53\<close> as it is. Hence the floor of the double quotient of
  two integers, the dividend below \<open>2 ^ 52\<close>, is their integer quotient: dividing a
  difference of time values by the length of a day gives whole days.
\<close>

lemma pow2_powi: "pow2 e = 2 powi e"
  by (simp add: pow2_def power_int_def inverse_eq_divide power_one_over)

lemma pow2_pos: "0 < pow2 e"
  by (simp add: pow2_powi)

lemma pow2_add: "pow2 (a + b) = pow2 a * pow2 b"
  by (simp add: pow2_powi power_int_add)

lemma pow2_mono: "a \<le> b \<Longrightarrow> pow2 a \<le> pow2 b"
  by (simp add: pow2_powi power_int_increasing)

lemma pow2_less_cancel: "pow2 a < pow2 b \<Longrightarrow> a < b"
  using pow2_mono [of b a] by (cases "a < b") simp_all

lemma bitLength_bounds:
  "0 < n \<Longrightarrow> 0 < bitLength n \<and> 2 ^ nat (bitLength n - 1) \<le> n \<and> n < 2 ^ nat (bitLength n)"
proof (induction n rule: bitLength.induct)
  case (1 n)
  show ?case
  proof (cases "n div 2 = 0")
    case True
    with "1.prems" have "n = 1" by presburger
    then show ?thesis
      by (simp add: bitLength.simps [of 1] bitLength.simps [of 0])
  next
    case False
    with "1.prems" have h: "0 < n div 2" by presburger
    have n: "\<not> n \<le> 0" using "1.prems" by simp
    from "1.IH" [OF n h] obtain l where l: "bitLength (n div 2) = l" "0 < l"
        "2 ^ nat (l - 1) \<le> n div 2" "n div 2 < 2 ^ nat l"
      by blast
    have b: "bitLength n = 1 + l"
      using n l(1) by (simp add: bitLength.simps [of n])
    have s: "nat (1 + l) = Suc (nat l)" "nat (1 + l - 1) = Suc (nat (l - 1))"
      using l(2) by simp_all
    have "2 * 2 ^ nat (l - 1) \<le> n" "n < 2 * 2 ^ nat l"
      using l(3,4) by presburger+
    then show ?thesis
      unfolding b s using l(2) by simp
  qed
qed

lemma binExponent_lower:
  assumes "0 < x"
  shows "pow2 (binExponent x) \<le> x"
proof -
  obtain a b where q: "quotient_of x = (a, b)"
    by (cases "quotient_of x")
  then have b: "0 < b" and x: "x = of_int a / of_int b"
    using quotient_of_denom_pos quotient_of_div by blast+
  have a: "0 < a"
    using assms b x by (simp add: zero_less_divide_iff)
  let ?e = "bitLength a - bitLength b"
  from bitLength_bounds [OF a] have la: "0 < bitLength a" "2 ^ nat (bitLength a - 1) \<le> a"
    by simp_all
  from bitLength_bounds [OF b] have lb: "0 < bitLength b" "b < 2 ^ nat (bitLength b)"
    by simp_all
  have "pow2 (?e - 1) * of_int b \<le> pow2 (?e - 1) * pow2 (bitLength b)"
  proof (rule mult_left_mono)
    have "(of_int b :: rat) \<le> of_int (2 ^ nat (bitLength b))"
      using lb(2) by (simp only: of_int_le_iff)
    then show "of_int b \<le> pow2 (bitLength b)"
      using lb(1) by (simp add: pow2_def)
    show "0 \<le> pow2 (?e - 1)"
      using pow2_pos [of "?e - 1"] by simp
  qed
  also have "\<dots> = pow2 (bitLength a - 1)"
    by (simp add: pow2_add [symmetric])
  also have "\<dots> \<le> of_int a"
  proof -
    have "(of_int (2 ^ nat (bitLength a - 1)) :: rat) \<le> of_int a"
      using la(2) by (simp only: of_int_le_iff)
    then show ?thesis
      using la(1) by (simp add: pow2_def)
  qed
  finally have low: "pow2 (?e - 1) \<le> x"
    using b by (simp add: x pos_le_divide_eq)
  show ?thesis
    using assms low by (simp add: binExponent_def q Let_def)
qed

lemma roundHalfEven_error: "\<bar>of_int (roundHalfEven y) - y\<bar> \<le> 1 / 2"
proof -
  have "of_int \<lfloor>y\<rfloor> \<le> y" "y < of_int \<lfloor>y\<rfloor> + 1"
    by linarith+
  then show ?thesis
    by (auto simp: roundHalfEven_def Let_def)
qed

lemma roundHalfEven_int: "roundHalfEven (of_int k) = k"
  by (simp add: roundHalfEven_def)

lemma fl_error:
  assumes "0 < x"
  shows "\<bar>fl x - x\<bar> \<le> x / 2 ^ 53"
proof -
  let ?q = "pow2 (binExponent x - 52)"
  have q: "0 < ?q"
    by (rule pow2_pos)
  have fl: "fl x = of_int (roundHalfEven (x / ?q)) * ?q"
    using assms by (simp add: fl_def Let_def)
  have "(of_int (roundHalfEven (x / ?q)) - x / ?q) * ?q = fl x - x"
    using q by (simp add: fl left_diff_distrib)
  then have "\<bar>fl x - x\<bar> = \<bar>of_int (roundHalfEven (x / ?q)) - x / ?q\<bar> * \<bar>?q\<bar>"
    by (simp only: abs_mult [symmetric])
  also have "\<dots> = \<bar>of_int (roundHalfEven (x / ?q)) - x / ?q\<bar> * ?q"
    using q by simp
  also have "\<dots> \<le> 1 / 2 * ?q"
    using roundHalfEven_error [of "x / ?q"] q by (intro mult_right_mono) simp_all
  also have "\<dots> = pow2 (binExponent x) / 2 ^ 53"
  proof -
    have "pow2 (binExponent x) = pow2 (binExponent x - 52) * pow2 52"
      by (simp add: pow2_add [symmetric])
    then show ?thesis
      by (simp add: pow2_def)
  qed
  also have "\<dots> \<le> x / 2 ^ 53"
    using binExponent_lower [OF assms] by (simp add: divide_right_mono)
  finally show ?thesis .
qed

lemma fl_int:
  assumes "0 \<le> k" and "k < 2 ^ 53"
  shows "fl (of_int k) = of_int k"
proof (cases "k = 0")
  case True
  then show ?thesis by (simp add: fl_def)
next
  case False
  with assms have pos: "(0::rat) < of_int k"
    by simp
  let ?e = "binExponent (of_int k)"
  have "pow2 ?e \<le> of_int k"
    using pos by (rule binExponent_lower)
  also have "(of_int k :: rat) < pow2 53"
  proof -
    have "(of_int k :: rat) < of_int (2 ^ 53)"
      using assms(2) by (simp only: of_int_less_iff)
    then show ?thesis
      by (simp add: pow2_def)
  qed
  finally have e: "?e \<le> 52"
    using pow2_less_cancel [of ?e 53] by simp
  have "of_int k / pow2 (?e - 52) = of_int k * pow2 (52 - ?e)"
  proof -
    have "pow2 (?e - 52) * pow2 (52 - ?e) = 1"
      by (simp add: pow2_add [symmetric] pow2_def)
    then show ?thesis
      using pow2_pos [of "?e - 52"] by (simp add: field_simps)
  qed
  also have "\<dots> = of_int (k * 2 ^ nat (52 - ?e))"
    using e by (simp add: pow2_def)
  finally have "roundHalfEven (of_int k / pow2 (?e - 52)) = k * 2 ^ nat (52 - ?e)"
    by (simp only: roundHalfEven_int)
  then have "fl (of_int k) = of_int (k * 2 ^ nat (52 - ?e)) * pow2 (?e - 52)"
    using pos by (simp add: fl_def Let_def)
  also have "\<dots> = of_int k * (pow2 (52 - ?e) * pow2 (?e - 52))"
    using e by (simp add: pow2_def)
  also have "pow2 (52 - ?e) * pow2 (?e - 52) = 1"
    by (simp add: pow2_add [symmetric] pow2_def)
  finally show ?thesis by simp
qed

lemma floor_fl_div:
  assumes "0 \<le> n" and "n < 2 ^ 52" and "0 < m"
  shows "\<lfloor>fl (of_int n / of_int m)\<rfloor> = n div m"
proof (cases "n mod m = 0")
  case True
  then have "n = (n div m) * m"
    by (simp add: mod_eq_0_iff_dvd)
  then have "(of_int n :: rat) = of_int (n div m) * of_int m"
    by (metis of_int_mult)
  then have x: "(of_int n :: rat) / of_int m = of_int (n div m)"
    using assms(3) by simp
  have "0 \<le> n div m"
    using assms(1,3) by (simp add: pos_imp_zdiv_nonneg_iff)
  moreover have "n div m \<le> n"
    using assms(1,3) zdiv_mono2 [where a = n and b = m and b' = 1] by simp
  ultimately have "0 \<le> n div m" "n div m \<le> n"
    by simp_all
  then have "fl (of_int (n div m)) = of_int (n div m)"
    using assms(2) by (intro fl_int) simp_all
  then show ?thesis
    by (simp add: x)
next
  case False
  let ?x = "of_int n / of_int m :: rat"
  let ?k = "n div m"
  have m: "(0::rat) < of_int m"
    using assms(3) by simp
  have r: "1 \<le> n mod m" "n mod m \<le> m - 1"
    using False assms(3) pos_mod_sign [of m n] pos_mod_bound [of m n] by linarith+
  have n: "n = ?k * m + n mod m"
    by simp
  have xk: "?x = of_int ?k + of_int (n mod m) / of_int m"
  proof -
    have "(of_int n :: rat) = of_int ?k * of_int m + of_int (n mod m)"
      by (metis n of_int_add of_int_mult)
    then show ?thesis
      using m by (simp add: field_simps)
  qed
  have lo: "of_int ?k + 1 / of_int m \<le> ?x"
  proof -
    have "(1::rat) \<le> of_int (n mod m)"
      using r(1) by simp
    then have "1 / of_int m \<le> (of_int (n mod m) :: rat) / of_int m"
      using m by (simp add: divide_right_mono)
    then show ?thesis
      by (simp add: xk)
  qed
  have hi: "?x \<le> of_int ?k + 1 - 1 / of_int m"
  proof -
    have "(of_int (n mod m) :: rat) \<le> of_int m - 1"
      using r(2) by (metis of_int_1 of_int_diff of_int_le_iff)
    then have "(of_int (n mod m) :: rat) / of_int m \<le> (of_int m - 1) / of_int m"
      using m by (simp add: divide_right_mono)
    also have "\<dots> = 1 - 1 / of_int m"
      using m by (simp add: field_simps)
    finally show ?thesis
      by (simp add: xk)
  qed
  have pos: "0 < ?x"
  proof -
    have "0 \<le> ?k"
      using assms(1,3) by (simp add: pos_imp_zdiv_nonneg_iff)
    then have "(0::rat) \<le> of_int ?k"
      by simp
    moreover have "(0::rat) < 1 / of_int m"
      using m by simp
    ultimately show ?thesis
      using lo by linarith
  qed
  have small: "?x / 2 ^ 53 < 1 / of_int m"
  proof -
    have "(of_int n :: rat) < of_int (2 ^ 52)"
      using assms(2) by (simp only: of_int_less_iff)
    then have "(of_int n :: rat) < 2 ^ 53"
      by simp
    then have "(of_int n :: rat) / 2 ^ 53 < 1"
      by simp
    then have "(of_int n :: rat) / 2 ^ 53 / of_int m < 1 / of_int m"
      using m by (rule divide_strict_right_mono)
    moreover have "?x / 2 ^ 53 = (of_int n :: rat) / 2 ^ 53 / of_int m"
      by simp
    ultimately show ?thesis
      by (simp only:)
  qed
  have err: "\<bar>fl ?x - ?x\<bar> < 1 / of_int m"
    using fl_error [OF pos] small by linarith
  have "of_int ?k \<le> fl ?x" "fl ?x < of_int ?k + 1"
    using err lo hi by linarith+
  then show ?thesis
    by (simp add: floor_unique)
qed

section \<open>Calendar arithmetic\<close>

lemma msPerDay_pos: "0 < msPerDay"
  by (simp add: msPerDay_def)

lemma Day_offset: "0 \<le> r \<Longrightarrow> r < msPerDay \<Longrightarrow> Day (d * msPerDay + r) = d"
  using msPerDay_pos by (simp add: Day_def)

lemma Day_midnight: "Day (d * msPerDay) = d"
  using Day_offset [of 0 d] msPerDay_pos by simp

lemma TimeWithinDay_offset: "0 \<le> r \<Longrightarrow> r < msPerDay \<Longrightarrow> TimeWithinDay (d * msPerDay + r) = r"
  by (simp add: TimeWithinDay_def)

lemma Day_split: "t = Day t * msPerDay + TimeWithinDay t"
  by (simp add: Day_def TimeWithinDay_def)

lemma Day_mono: "a \<le> b \<Longrightarrow> Day a \<le> Day b"
  using msPerDay_pos by (simp add: Day_def zdiv_mono1)

lemma wholeDays_exact:
  assumes "a - b = d * msPerDay + r" and "0 \<le> d" and "d < 28" and "0 \<le> r" and "r < msPerDay"
  shows "wholeDays a b = d"
proof -
  have lo: "0 \<le> a - b"
    using assms(1,2,4) msPerDay_pos by simp
  have "d * msPerDay \<le> 27 * msPerDay"
    using assms(3) msPerDay_pos by (intro mult_right_mono) simp_all
  then have "a - b < 28 * msPerDay"
    using assms(1,5) by linarith
  then have hi: "a - b < 2 ^ 52"
    by (simp add: msPerDay_def)
  have "fsub (of_int a) (of_int b) = fl (of_int (a - b))"
    by (simp add: fsub_def)
  also have "\<dots> = of_int (a - b)"
    using lo hi by (intro fl_int) simp_all
  finally have "wholeDays a b = \<lfloor>fl (of_int (a - b) / of_int msPerDay)\<rfloor>"
    by (simp add: wholeDays_def Math_floor_def fdiv_def)
  also have "\<dots> = (a - b) div msPerDay"
    using lo hi msPerDay_pos by (rule floor_fl_div)
  also have "\<dots> = d"
    using Day_offset [OF assms(4,5), of d] by (simp only: assms(1) Day_def)
  finally show ?thesis .
qed

lemma windowEnd_Some:
  assumes "windowEnd referenceDate = Some pe"
  shows "\<exists>t. referenceDate = Some t \<and> pe = Day t * msPerDay + (msPerDay - 1) \<and> pe \<le> maxTime"
  using assms
  by (auto simp: windowEnd_def setUTCHours_def TimeClip_def msPerDay_def
           split: option.splits if_splits)

lemma windowStart_Some:
  assumes "windowStart (Some pe) = Some ps" and "pe = d * msPerDay + (msPerDay - 1)"
  shows "ps = (d - 27) * msPerDay \<and> - maxTime \<le> ps"
proof -
  have r: "0 \<le> msPerDay - 1" "msPerDay - 1 < msPerDay"
    using msPerDay_pos by simp_all
  have d: "Day pe = d" and w: "TimeWithinDay pe = msPerDay - 1"
    using assms(2) Day_offset [OF r] TimeWithinDay_offset [OF r] by simp_all
  obtain x where x: "addUTCDate (Some pe) (- 27) = Some x"
    and s: "setUTCHours (Some x) 0 0 0 0 = Some ps"
    using assms(1) by (auto simp: windowStart_def setUTCHours_def split: option.splits)
  have "x = (d - 27) * msPerDay + (msPerDay - 1)"
    using x d w by (auto simp: addUTCDate_def TimeClip_def split: if_splits)
  then have "Day x = d - 27"
    using Day_offset [OF r] by simp
  then show ?thesis
    using s by (auto simp: setUTCHours_def TimeClip_def split: if_splits)
qed

lemma windowStart_None: "windowStart None = None"
  by (simp add: windowStart_def addUTCDate_def setUTCHours_def)

lemma window_bounds:
  assumes "windowEnd referenceDate = Some pe" and "windowStart (Some pe) = Some ps"
  shows "\<exists>t. referenceDate = Some t \<and> ps = (Day t - 27) * msPerDay
            \<and> pe = Day t * msPerDay + (msPerDay - 1)
            \<and> - maxTime \<le> ps \<and> pe \<le> maxTime"
  using windowEnd_Some [OF assms(1)] windowStart_Some [OF assms(2)] by blast

lemma window_days:
  assumes "windowEnd referenceDate = Some pe" and "windowStart (Some pe) = Some ps"
  shows "pe = ps + 28 * msPerDay - 1" and "Day pe = Day ps + 27" and "ps = Day ps * msPerDay"
proof -
  obtain t where t: "ps = (Day t - 27) * msPerDay" "pe = Day t * msPerDay + (msPerDay - 1)"
    using window_bounds [OF assms] by blast
  show "pe = ps + 28 * msPerDay - 1"
    using t by (simp add: algebra_simps)
  have "Day pe = Day t"
    using t(2) msPerDay_pos by (simp add: Day_offset)
  moreover have "Day ps = Day t - 27"
    using t(1) by (simp add: Day_midnight)
  ultimately show "Day pe = Day ps + 27" by simp
  show "ps = Day ps * msPerDay"
    using t(1) by (simp add: Day_midnight)
qed

lemma window_cases:
  obtains (invalid) "windowStart (windowEnd referenceDate) = None"
  | (valid) ps pe where "windowEnd referenceDate = Some pe" and "windowStart (Some pe) = Some ps"
  by (cases "windowEnd referenceDate"; cases "windowStart (windowEnd referenceDate)")
     (auto simp: windowStart_None)

lemma representableWindow_iff:
  "representableWindow referenceDate \<longleftrightarrow>
     (\<exists>ps pe. windowEnd referenceDate = Some pe \<and> windowStart (Some pe) = Some ps)"
proof
  assume "representableWindow referenceDate"
  then obtain t where t: "referenceDate = Some t" "- maxTime \<le> (Day t - 27) * msPerDay"
      "Day t * msPerDay + (msPerDay - 1) \<le> maxTime"
    by (auto simp: representableWindow_def split: option.splits)
  let ?pe = "Day t * msPerDay + (msPerDay - 1)"
  let ?x = "(Day t - 27) * msPerDay + (msPerDay - 1)"
  have r: "0 \<le> msPerDay - 1" "msPerDay - 1 < msPerDay"
    using msPerDay_pos by simp_all
  have tod: "((23 * 60 + 59) * 60 + 59) * 1000 + 999 = msPerDay - 1"
    by (simp add: msPerDay_def)
  have le: "(Day t - 27) * msPerDay \<le> Day t * msPerDay"
    using msPerDay_pos by (simp add: mult_right_mono)
  have "\<bar>?pe\<bar> \<le> maxTime"
    using t(2,3) le r by linarith
  then have e: "windowEnd referenceDate = Some ?pe"
    unfolding windowEnd_def setUTCHours_def t(1) option.case tod TimeClip_def by simp
  have "\<bar>?x\<bar> \<le> maxTime"
    using t(2,3) le r by linarith
  then have a: "addUTCDate (Some ?pe) (- 27) = Some ?x"
    using Day_offset [OF r, of "Day t"] TimeWithinDay_offset [OF r, of "Day t"]
    by (simp add: addUTCDate_def TimeClip_def)
  have "\<bar>(Day t - 27) * msPerDay\<bar> \<le> maxTime"
    using t(2,3) le r by linarith
  then have "windowStart (Some ?pe) = Some ((Day t - 27) * msPerDay)"
    using Day_offset [OF r, of "Day t - 27"]
    by (simp add: windowStart_def a setUTCHours_def TimeClip_def)
  with e show "\<exists>ps pe. windowEnd referenceDate = Some pe \<and> windowStart (Some pe) = Some ps"
    by blast
next
  assume "\<exists>ps pe. windowEnd referenceDate = Some pe \<and> windowStart (Some pe) = Some ps"
  then obtain ps pe where w: "windowEnd referenceDate = Some pe" "windowStart (Some pe) = Some ps"
    by blast
  then show "representableWindow referenceDate"
    using window_bounds [OF w] by (auto simp: representableWindow_def)
qed

lemma walkthrough_window:
  "windowEnd walkthroughReference = Some (19768 * msPerDay + (msPerDay - 1))"
  "windowStart (Some (19768 * msPerDay + (msPerDay - 1))) = Some (19741 * msPerDay)"
  by code_simp+

section \<open>Grouping by day and by weekday\<close>

lemma startDate_relevant:
  "map startDate (filter (inPeriod ps pe) ss) = map Some (startTimes ps pe ss)"
  by (induction ss) (auto simp: startTimes_def inPeriod_def dateLE_def split: option.splits)

lemma length_relevant: "length (filter (inPeriod ps pe) ss) = length (startTimes ps pe ss)"
  using startDate_relevant [of ps pe ss] by (metis length_map)

lemma startTimes_bounds: "t \<in> set (startTimes ps pe ss) \<Longrightarrow> ps \<le> t \<and> t \<le> pe"
  by (auto simp: startTimes_def split: option.splits if_splits)

lemma length_startTimes:
  "length (startTimes ps pe ss) =
     length (filter (\<lambda>s. case startDate s of None \<Rightarrow> False | Some t \<Rightarrow> ps \<le> t \<and> t \<le> pe) ss)"
  by (induction ss) (auto simp: startTimes_def split: option.splits)

lemma startTimes_Nil: "startTimes ps pe [] = []"
  by (simp add: startTimes_def)

lemma startTimes_append:
  "startTimes ps pe (xs @ ys) = startTimes ps pe xs @ startTimes ps pe ys"
  by (simp add: startTimes_def)

lemma startTimes_Cons_in:
  "startDate s = Some t \<Longrightarrow> ps \<le> t \<Longrightarrow> t \<le> pe \<Longrightarrow>
   startTimes ps pe (s # ys) = t # startTimes ps pe ys"
  by (simp add: startTimes_def)

lemma mset_startTimes:
  assumes "mset ss = mset ss'"
  shows "mset (startTimes ps pe ss) = mset (startTimes ps pe ss')"
proof -
  let ?f = "\<lambda>s. case startDate s of
                    None \<Rightarrow> []
                  | Some t \<Rightarrow> if ps \<le> t \<and> t \<le> pe then [t] else []"
  have "mset (startTimes ps pe xs) = sum_mset (image_mset (\<lambda>s. mset (?f s)) (mset xs))" for xs
    by (induction xs) (simp_all add: startTimes_def)
  then show ?thesis
    using assms by simp
qed

lemma length_filter_mset:
  "mset xs = mset ys \<Longrightarrow> length (filter P xs) = length (filter P ys)"
  by (metis mset_filter size_mset)

lemma groupSessions_fold:
  "map startDate rs = map Some ts \<Longrightarrow>
   groupSessions rs (m, w) = Inr (fold dayStep ts m, fold weekStep ts w)"
proof (induction rs arbitrary: ts m w)
  case Nil
  then show ?case by simp
next
  case (Cons s rs)
  then obtain t ts' where "ts = t # ts'" "startDate s = Some t" "map startDate rs = map Some ts'"
    by (cases ts) auto
  with Cons.IH show ?case
    by (simp add: dayStep_def weekStep_def Let_def)
qed

lemma countSessions_fold:
  "map startDate rs = map Some ts \<Longrightarrow> countSessions rs m = Inr (fold dayStep ts m)"
proof (induction rs arbitrary: ts m)
  case Nil
  then show ?case by simp
next
  case (Cons s rs)
  then obtain t ts' where "ts = t # ts'" "startDate s = Some t" "map startDate rs = map Some ts'"
    by (cases ts) auto
  with Cons.IH show ?case
    by (simp add: dayStep_def toISODate_def)
qed

lemma map_of_Map_set: "map_of (Map_set m k v) = (map_of m)(k \<mapsto> v)"
  by (induction m) (auto simp: fun_eq_iff)

lemma keys_Map_set: "fst ` set (Map_set m k v) = insert k (fst ` set m)"
  by (induction m k v rule: Map_set.induct) (simp_all add: insert_commute)

lemma distinct_Map_set: "distinct (map fst m) \<Longrightarrow> distinct (map fst (Map_set m k v))"
  by (induction m) (auto simp: keys_Map_set)

lemma keys_fold_dayStep:
  "fst ` set (fold dayStep ts m) = fst ` set m \<union> (\<lambda>t. IsoDate (Day t)) ` set ts"
  by (induction ts arbitrary: m) (auto simp: dayStep_def keys_Map_set)

lemma distinct_fold_dayStep:
  "distinct (map fst m) \<Longrightarrow> distinct (map fst (fold dayStep ts m))"
  by (induction ts arbitrary: m) (auto simp: dayStep_def distinct_Map_set)

lemma count_fold_dayStep:
  "orZero (Map_get (fold dayStep ts m) k) =
     orZero (Map_get m k) + length (filter (\<lambda>t. IsoDate (Day t) = k) ts)"
  by (induction ts arbitrary: m) (auto simp: dayStep_def Map_get_def map_of_Map_set orZero_def)

lemma count_buckets:
  "orZero (Map_get (fold dayStep ts []) (IsoDate k)) = length (filter (\<lambda>t. Day t = k) ts)"
  by (simp add: count_fold_dayStep) (simp add: Map_get_def orZero_def)

lemma length_buckets: "length (fold dayStep ts []) = card (Day ` set ts)"
proof -
  have "length (fold dayStep ts []) = length (map fst (fold dayStep ts []))"
    by simp
  also have "\<dots> = card (set (map fst (fold dayStep ts [])))"
    by (rule distinct_card [symmetric]) (simp add: distinct_fold_dayStep)
  also have "\<dots> = card (IsoDate ` Day ` set ts)"
    by (simp add: keys_fold_dayStep image_image)
  also have "\<dots> = card (Day ` set ts)"
    by (rule card_image) (simp add: inj_on_def)
  finally show ?thesis .
qed

lemma buckets_empty_iff: "fold dayStep ts [] = [] \<longleftrightarrow> ts = []"
proof
  assume "fold dayStep ts [] = []"
  then have "fst ` set (fold dayStep ts []) = {}" by simp
  then show "ts = []" by (simp add: keys_fold_dayStep)
qed simp

lemma activeDates_buckets:
  "sort (map (\<lambda>d. parseISODate d) (map fst (fold dayStep ts [])))
     = sorted_list_of_set ((\<lambda>t. Day t * msPerDay) ` set ts)"
proof -
  let ?ks = "map fst (fold dayStep ts [])"
  have inj: "inj parseISODate"
  proof (rule injI)
    fix a b assume "parseISODate a = parseISODate b"
    then show "a = b"
      using msPerDay_pos by (cases a; cases b) simp
  qed
  have "distinct ?ks"
    by (simp add: distinct_fold_dayStep)
  moreover have "inj_on parseISODate (set ?ks)"
    using inj by (rule inj_on_subset) simp
  ultimately have "distinct (map parseISODate ?ks)"
    by (simp only: distinct_map)
  then have "sort (map parseISODate ?ks) = sorted_list_of_set (set (map parseISODate ?ks))"
    by (simp only: sorted_list_of_set_sort_remdups distinct_remdups_id)
  also have "set (map parseISODate ?ks) = (\<lambda>t. Day t * msPerDay) ` set ts"
    by (simp add: keys_fold_dayStep image_image del: map_map)
  finally show ?thesis by simp
qed

lemma length_fold_weekStep: "length (fold weekStep ts w) = length w"
  by (induction ts arbitrary: w) (auto simp: weekStep_def)

lemma nth_fold_weekStep:
  "i < length w \<Longrightarrow>
   fold weekStep ts w ! i = w ! i + length (filter (\<lambda>t. getUTCDay t = i) ts)"
  by (induction ts arbitrary: w) (auto simp: weekStep_def nth_list_update)

lemma weekly_buckets:
  "fold weekStep ts [0, 0, 0, 0, 0, 0, 0]
     = map (\<lambda>i. length (filter (\<lambda>t. getUTCDay t = i) ts)) [0..<7]"
  by (rule nth_equalityI) (simp_all add: length_fold_weekStep nth_fold_weekStep nth_Cons' del: upt_Suc)

section \<open>The longest gap\<close>

lemma fold_max_Max:
  "fold (\<lambda>i (a::int). max a (f i)) xs a0 = Max (insert a0 (f ` set xs))"
proof (induction xs arbitrary: a0)
  case Nil
  then show ?case by simp
next
  case (Cons x xs)
  have "Max (insert (max a0 (f x)) (f ` set xs)) = Max (insert a0 (insert (f x) (f ` set xs)))"
    by (cases "set xs = {}") (simp_all add: max.assoc)
  with Cons show ?case by simp
qed

lemma max_Max_insert:
  fixes a b c :: int
  assumes "finite S"
  shows "max (Max (insert (max a b) S)) c = Max (insert a (insert b (insert c S)))"
proof (cases "S = {}")
  case True
  then show ?thesis by (simp add: max_def)
next
  case False
  then have "Max (insert (max a b) S) = max (max a b) (Max S)"
    and "Max (insert a (insert b (insert c S))) = max a (max b (max c (Max S)))"
    using assms by simp_all
  then show ?thesis
    by (simp add: max_def)
qed

lemma sort_map_days:
  "sort (map (\<lambda>d. d * msPerDay) xs) = map (\<lambda>d. d * msPerDay) (sort xs)"
proof (rule properties_for_sort)
  show "mset (map (\<lambda>d. d * msPerDay) (sort xs)) = mset (map (\<lambda>d. d * msPerDay) xs)"
    by simp
  have "sorted_wrt (\<lambda>x y. x * msPerDay \<le> y * msPerDay) (sort xs)"
  proof (rule sorted_wrt_mono_rel [of _ "(\<le>)"])
    show "x * msPerDay \<le> y * msPerDay" if "x \<le> y" for x y :: int
      using that msPerDay_pos by (simp add: mult_right_mono)
    show "sorted_wrt (\<le>) (sort xs)"
      by simp
  qed
  then show "sorted (map (\<lambda>d. d * msPerDay) (sort xs))"
    by (simp add: sorted_map)
qed

lemma activeDates_days:
  "sort (map (\<lambda>d. parseISODate d) (map fst m)) = map (\<lambda>d. d * msPerDay) (activeDays m)"
proof -
  have "parseISODate k = dayNumber k * msPerDay" for k
    by (cases k) simp
  then have "map (\<lambda>d. parseISODate d) (map fst m) = map (\<lambda>d. d * msPerDay) (map dayNumber (map fst m))"
    by simp
  then show ?thesis
    unfolding activeDays_def by (simp only: sort_map_days)
qed

lemma calculateLongestGap_days:
  assumes "m \<noteq> []" and "\<forall>d\<in>set (activeDays m). s \<le> d \<and> d \<le> e" and "e - s < 28"
  shows "calculateLongestGap m (s * msPerDay) (e * msPerDay + (msPerDay - 1)) =
           Max (set (0 # (hd (activeDays m) - s) # (e - last (activeDays m))
                       # interiorGaps (activeDays m)))"
proof -
  let ?ds = "activeDays m"
  have len: "length ?ds = length m"
    by (simp add: activeDays_def)
  then have ne: "?ds \<noteq> []"
    using assms(1) by (metis length_0_conv)
  have sorted: "sorted ?ds"
    by (simp add: activeDays_def)
  have inside: "s \<le> ?ds ! i \<and> ?ds ! i \<le> e" if "i < length ?ds" for i
    using assms(2) that by simp
  have r: "0 \<le> msPerDay - 1" "msPerDay - 1 < msPerDay" "(0::int) \<le> 0" "0 < msPerDay"
    using msPerDay_pos by simp_all
  have first: "wholeDays (map (\<lambda>d. d * msPerDay) ?ds ! 0) (s * msPerDay) = hd ?ds - s"
  proof (rule wholeDays_exact [where r = 0])
    show "map (\<lambda>d. d * msPerDay) ?ds ! 0 - s * msPerDay = (hd ?ds - s) * msPerDay + 0"
      using ne by (simp add: hd_conv_nth algebra_simps)
    show "0 \<le> hd ?ds - s" "hd ?ds - s < 28"
      using inside [of 0] ne assms(3) by (simp_all add: hd_conv_nth)
  qed (use r in simp_all)
  have final: "wholeDays (e * msPerDay + (msPerDay - 1))
                 (map (\<lambda>d. d * msPerDay) ?ds ! (length ?ds - 1)) = e - last ?ds"
  proof (rule wholeDays_exact [where r = "msPerDay - 1"])
    show "e * msPerDay + (msPerDay - 1) - map (\<lambda>d. d * msPerDay) ?ds ! (length ?ds - 1)
            = (e - last ?ds) * msPerDay + (msPerDay - 1)"
      using ne by (simp add: last_conv_nth algebra_simps)
    show "0 \<le> e - last ?ds" "e - last ?ds < 28"
      using inside [of "length ?ds - 1"] ne assms(3) by (simp_all add: last_conv_nth)
  qed (use r in simp_all)
  have inner: "fold (\<lambda>i a. max a (wholeDays (map (\<lambda>d. d * msPerDay) ?ds ! i)
                   (map (\<lambda>d. d * msPerDay) ?ds ! (i - 1)) - 1)) [1..<length ?ds] a0
               = Max (insert a0 (set (interiorGaps ?ds)))" for a0
  proof -
    have "wholeDays (map (\<lambda>d. d * msPerDay) ?ds ! i) (map (\<lambda>d. d * msPerDay) ?ds ! (i - 1)) - 1
            = ?ds ! i - ?ds ! (i - 1) - 1" if "i \<in> set [1..<length ?ds]" for i
    proof -
      have i: "i < length ?ds" "i - 1 < length ?ds"
        using that by auto
      have up: "?ds ! (i - 1) \<le> ?ds ! i"
        using sorted i by (intro sorted_nth_mono) simp_all
      have "wholeDays (map (\<lambda>d. d * msPerDay) ?ds ! i) (map (\<lambda>d. d * msPerDay) ?ds ! (i - 1))
              = ?ds ! i - ?ds ! (i - 1)"
      proof (rule wholeDays_exact [where r = 0])
        show "map (\<lambda>d. d * msPerDay) ?ds ! i - map (\<lambda>d. d * msPerDay) ?ds ! (i - 1)
                = (?ds ! i - ?ds ! (i - 1)) * msPerDay + 0"
          using i by (simp add: algebra_simps)
        show "0 \<le> ?ds ! i - ?ds ! (i - 1)"
          using up by simp
        show "?ds ! i - ?ds ! (i - 1) < 28"
          using inside [OF i(1)] inside [OF i(2)] assms(3) by linarith
      qed (use r in simp_all)
      then show ?thesis
        by simp
    qed
    then have "fold (\<lambda>i a. max a (wholeDays (map (\<lambda>d. d * msPerDay) ?ds ! i)
                   (map (\<lambda>d. d * msPerDay) ?ds ! (i - 1)) - 1)) [1..<length ?ds] a0
          = fold (\<lambda>i a. max a (?ds ! i - ?ds ! (i - 1) - 1)) [1..<length ?ds] a0"
      by (intro fold_cong refl) simp
    then show ?thesis
      by (simp only: fold_max_Max interiorGaps_def set_map)
  qed
  have "calculateLongestGap m (s * msPerDay) (e * msPerDay + (msPerDay - 1))
          = max (Max (insert (max 0 (hd ?ds - s)) (set (interiorGaps ?ds)))) (e - last ?ds)"
    unfolding calculateLongestGap_def activeDates_days Let_def
    using assms(1) by (simp only: length_map first final inner length_0_conv if_False)
  also have "\<dots> = Max (insert 0 (insert (hd ?ds - s) (insert (e - last ?ds) (set (interiorGaps ?ds)))))"
    by (rule max_Max_insert) simp
  also have "\<dots> = Max (set (0 # (hd ?ds - s) # (e - last ?ds) # interiorGaps ?ds))"
    by simp
  finally show ?thesis .
qed

lemma calculateLongestGap_mset:
  assumes "mset ts = mset ts'"
  shows "calculateLongestGap (fold dayStep ts []) ps pe
           = calculateLongestGap (fold dayStep ts' []) ps pe"
proof -
  have "set ts = set ts'"
    using assms by (rule mset_eq_setD)
  then show ?thesis
    unfolding calculateLongestGap_def length_buckets activeDates_buckets by simp
qed

section \<open>What the engine returns\<close>

lemma calculateMetrics_closed:
  "calculateMetrics ss ps pe = Inr (metricsOf (startTimes ps pe ss) ps pe)"
  by (simp add: calculateMetrics_def metricsOf_def Let_def length_relevant
        groupSessions_fold [OF startDate_relevant])

lemma chartLoop_closed:
  "- maxTime \<le> t \<Longrightarrow> t + int n * msPerDay \<le> maxTime \<Longrightarrow>
   chartLoop (Suc n) (Some t) counts acc =
     Inr (acc @ map (\<lambda>i. \<lparr>date = IsoDate (Day t + int i),
                           count_d = orZero (Map_get counts (IsoDate (Day t + int i)))\<rparr>)
                  [0..<Suc n])"
proof (induction n arbitrary: t acc)
  case 0
  then show ?case by (simp add: toISODate_def)
next
  case (Suc n)
  have pos: "0 \<le> int n * msPerDay"
    using msPerDay_pos by simp
  have unfold: "int (Suc n) * msPerDay = msPerDay + int n * msPerDay"
    by (simp add: algebra_simps)
  have range: "- maxTime \<le> t + msPerDay" "t + msPerDay + int n * msPerDay \<le> maxTime"
    using Suc.prems msPerDay_pos unfolding unfold by linarith+
  have "\<bar>t + msPerDay\<bar> \<le> maxTime"
    using range pos by linarith
  moreover have "(Day t + 1) * msPerDay + TimeWithinDay t = t + msPerDay"
    using Day_split [of t] by (simp add: algebra_simps)
  ultimately have next_day: "addUTCDate (Some t) 1 = Some (t + msPerDay)"
    by (simp add: addUTCDate_def TimeClip_def)
  have day: "Day (t + msPerDay) = Day t + 1"
    using msPerDay_pos by (simp add: Day_def)
  let ?E = "\<lambda>d. \<lparr>date = IsoDate d, count_d = orZero (Map_get counts (IsoDate d))\<rparr>"
  have "chartLoop (Suc (Suc n)) (Some t) counts acc
          = chartLoop (Suc n) (Some (t + msPerDay)) counts (acc @ [?E (Day t)])"
    by (simp only: chartLoop.simps toISODate_def option.case sum.case next_day)
  also have "\<dots> = Inr ((acc @ [?E (Day t)]) @ map (\<lambda>i. ?E (Day (t + msPerDay) + int i)) [0..<Suc n])"
    by (rule Suc.IH [OF range])
  also have "(acc @ [?E (Day t)]) @ map (\<lambda>i. ?E (Day (t + msPerDay) + int i)) [0..<Suc n]
          = acc @ map (\<lambda>i. ?E (Day t + int i)) [0..<Suc (Suc n)]"
    unfolding map_upt_Suc [of _ "Suc n"] day by (simp add: add.assoc del: upt_Suc)
  finally show ?case .
qed

lemma generateChartData_closed:
  assumes "- maxTime \<le> ps" and "ps + 27 * msPerDay \<le> maxTime"
  shows "generateChartData ss ps pe = Inr (chartOf (startTimes ps pe ss) (Day ps))"
proof -
  have "chartLoop (Suc 27) (Some ps) (fold dayStep (startTimes ps pe ss) []) []
          = Inr (chartOf (startTimes ps pe ss) (Day ps))"
    using assms by (subst chartLoop_closed) (simp_all add: chartOf_def count_buckets)
  then show ?thesis
    by (simp add: generateChartData_def countSessions_fold [OF startDate_relevant])
qed

lemma calculateConsistencyScore_Inr:
  assumes "windowEnd referenceDate = Some pe" and "windowStart (Some pe) = Some ps"
  shows "calculateConsistencyScore ss referenceDate =
           Inr \<lparr>score = scoreOf (metricsOf (startTimes ps pe ss) ps pe),
                explanations = generateExplanations (metricsOf (startTimes ps pe ss) ps pe),
                chartData = chartOf (startTimes ps pe ss) (Day ps),
                periodStart = IsoDate (Day ps), periodEnd = IsoDate (Day pe)\<rparr>"
proof -
  obtain t where "- maxTime \<le> ps" "pe \<le> maxTime"
    using window_bounds [OF assms] by blast
  moreover have "ps + 27 * msPerDay \<le> pe"
    using window_days(1) [OF assms] msPerDay_pos by simp
  ultimately have "generateChartData ss ps pe = Inr (chartOf (startTimes ps pe ss) (Day ps))"
    by (intro generateChartData_closed) simp_all
  then show ?thesis
    using assms
    by (simp add: calculateConsistencyScore_def calculateMetrics_closed scoreOf_def Let_def)
qed

lemma calculateConsistencyScore_Inl:
  assumes "windowStart (windowEnd referenceDate) = None"
  shows "calculateConsistencyScore ss referenceDate = Inl RangeError"
  using assms by (simp add: calculateConsistencyScore_def Let_def split: option.splits)

lemma calculateConsistencyScore_InrD:
  assumes "calculateConsistencyScore ss referenceDate = Inr r"
  obtains ps pe where "windowEnd referenceDate = Some pe" and "windowStart (Some pe) = Some ps"
proof (cases referenceDate rule: window_cases)
  case invalid
  then show ?thesis
    using assms calculateConsistencyScore_Inl [of referenceDate ss] by simp
next
  case (valid ps pe)
  then show ?thesis by (rule that)
qed

lemma returns_iff:
  "(\<exists>r. calculateConsistencyScore sessions referenceDate = Inr r) \<longleftrightarrow> representableWindow referenceDate"
proof
  assume "\<exists>r. calculateConsistencyScore sessions referenceDate = Inr r"
  then show "representableWindow referenceDate"
    unfolding representableWindow_iff by (elim exE calculateConsistencyScore_InrD) blast
next
  assume "representableWindow referenceDate"
  then obtain ps pe where w: "windowEnd referenceDate = Some pe" "windowStart (Some pe) = Some ps"
    unfolding representableWindow_iff by blast
  show "\<exists>r. calculateConsistencyScore sessions referenceDate = Inr r"
    unfolding calculateConsistencyScore_Inr [OF w] by blast
qed

lemma metricsOf_mset:
  assumes "mset ts = mset ts'"
  shows "metricsOf ts ps pe = metricsOf ts' ps pe"
proof -
  have "set ts = set ts'" and "length ts = length ts'"
    using assms by (rule mset_eq_setD, rule mset_eq_length)
  then show ?thesis
    unfolding metricsOf_def length_buckets weekly_buckets calculateLongestGap_mset [OF assms]
    by (simp add: length_filter_mset [OF assms])
qed

lemma chartOf_mset:
  assumes "mset ts = mset ts'"
  shows "chartOf ts d0 = chartOf ts' d0"
  unfolding chartOf_def by (simp add: length_filter_mset [OF assms])

lemma length_chartOf: "length (chartOf ts d0) = 28"
  by (simp add: chartOf_def)

lemma nth_chartOf:
  "j < 28 \<Longrightarrow>
   chartOf ts d0 ! j =
     \<lparr>date = IsoDate (d0 + int j), count_d = length (filter (\<lambda>t. Day t = d0 + int j) ts)\<rparr>"
  unfolding chartOf_def by (simp del: upt_Suc)

lemma chartOf_insert:
  assumes "Day t = d0 + int i" and "i < 28"
  shows "chartOf (ts1 @ t # ts2) d0 =
           (chartOf (ts1 @ ts2) d0)
             [i := \<lparr>date = date (chartOf (ts1 @ ts2) d0 ! i),
                     count_d = count_d (chartOf (ts1 @ ts2) d0 ! i) + 1\<rparr>]"
proof (rule nth_equalityI)
  show "length (chartOf (ts1 @ t # ts2) d0) = length ((chartOf (ts1 @ ts2) d0)
             [i := \<lparr>date = date (chartOf (ts1 @ ts2) d0 ! i),
                     count_d = count_d (chartOf (ts1 @ ts2) d0 ! i) + 1\<rparr>])"
    by (simp add: length_chartOf)
next
  fix j assume "j < length (chartOf (ts1 @ t # ts2) d0)"
  then have j: "j < 28"
    by (simp add: length_chartOf)
  show "chartOf (ts1 @ t # ts2) d0 ! j = (chartOf (ts1 @ ts2) d0)
             [i := \<lparr>date = date (chartOf (ts1 @ ts2) d0 ! i),
                     count_d = count_d (chartOf (ts1 @ ts2) d0 ! i) + 1\<rparr>] ! j"
    using assms j by (auto simp: nth_list_update length_chartOf nth_chartOf)
qed

lemma sum_list_indicator:
  "sum_list (map (\<lambda>i. if i = j then 1 else 0) [0..<n]) = (if j < n then 1 else (0::nat))"
  by (induction n) auto

lemma sum_chartOf:
  assumes "\<forall>t\<in>set ts. d0 \<le> Day t \<and> Day t \<le> d0 + 27"
  shows "sum_list (map count_d (chartOf ts d0)) = length ts"
  using assms
proof (induction ts)
  case Nil
  then show ?case by (simp add: chartOf_def comp_def del: upt_Suc)
next
  case (Cons t ts)
  let ?j = "nat (Day t - d0)"
  have j: "?j < 28" and eq: "\<And>i. (Day t = d0 + int i) = (i = ?j)"
    using Cons.prems by auto
  have "sum_list (map count_d (chartOf (t # ts) d0))
          = sum_list (map (\<lambda>i. (if i = ?j then 1 else 0)
                + length (filter (\<lambda>t. Day t = d0 + int i) ts)) [0..<28])"
    unfolding chartOf_def map_map
    by (intro arg_cong [where f = sum_list] map_cong refl) (simp add: eq)
  also have "\<dots> = sum_list (map (\<lambda>i. if i = ?j then 1 else 0) [0..<28])
                  + sum_list (map count_d (chartOf ts d0))"
    unfolding chartOf_def by (simp add: sum_list_addf comp_def del: upt_Suc)
  also have "\<dots> = Suc (length ts)"
    using Cons j by (simp add: sum_list_indicator del: upt_Suc)
  finally show ?case by simp
qed

lemma fl_zero: "fl 0 = 0"
  by (simp add: fl_def)

lemma fmul_commute: "fmul x y = fmul y x"
  by (simp add: fmul_def mult.commute)

lemma Math_round_half_up: "Math_round x = roundHalfUp x"
proof (cases "x - of_int \<lfloor>x\<rfloor> < 1 / 2")
  case True
  have "of_int \<lfloor>x\<rfloor> \<le> x"
    by linarith
  with True have "of_int \<lfloor>x\<rfloor> \<le> x + 1 / 2" "x + 1 / 2 < of_int \<lfloor>x\<rfloor> + 1"
    by linarith+
  then have "\<lfloor>x + 1 / 2\<rfloor> = \<lfloor>x\<rfloor>"
    by (rule floor_unique)
  with True show ?thesis
    by (simp only: Math_round_def roundHalfUp_def if_True)
next
  case False
  have "x < of_int \<lfloor>x\<rfloor> + 1"
    by linarith
  with False have "of_int \<lfloor>x\<rfloor> + 1 \<le> x + 1 / 2" "x + 1 / 2 < of_int \<lfloor>x\<rfloor> + 1 + 1"
    by linarith+
  then have "of_int (\<lfloor>x\<rfloor> + 1) \<le> x + 1 / 2" "x + 1 / 2 < of_int (\<lfloor>x\<rfloor> + 1) + 1"
    by simp_all
  then have "\<lfloor>x + 1 / 2\<rfloor> = \<lfloor>x\<rfloor> + 1"
    by (rule floor_unique)
  with False show ?thesis
    by (simp only: Math_round_def roundHalfUp_def if_False)
qed

lemma clampScore_min_max: "min 100 (max 0 v) = clampScore v"
  by (simp add: clampScore_def)

lemma scoreOf_spec:
  "scoreOf (metricsOf ts ps pe) =
     doubleScore (daysWithActivity (metricsOf ts ps pe)) (longestGap (metricsOf ts ps pe))
       (activeWeekdays (weeklyDistribution (metricsOf ts ps pe)))
       (totalSessions (metricsOf ts ps pe))"
proof -
  let ?m = "metricsOf ts ps pe"
  have f: "calculateFrequencyScore ?m = specFrequency (daysWithActivity ?m)"
    by (simp add: calculateFrequencyScore_def specFrequency_def metricsOf_def)
  have g: "calculateGapScore ?m = gapQuotientFirst (longestGap ?m)"
    by (simp add: calculateGapScore_def gapQuotientFirst_def Let_def)
  have d: "calculateDistributionScore ?m = specDistribution (activeWeekdays (weeklyDistribution ?m))"
  proof (cases "daysWithActivity ?m = 0")
    case True
    then have "ts = []"
      by (simp add: metricsOf_def buckets_empty_iff)
    then show ?thesis
      by (simp add: calculateDistributionScore_def specDistribution_def metricsOf_def
            activeWeekdays_def fdiv_def fmul_def fl_zero)
  next
    case False
    then show ?thesis
      by (simp add: calculateDistributionScore_def specDistribution_def Let_def)
  qed
  have i: "calculateIntensityScore ?m = specIntensity (daysWithActivity ?m) (totalSessions ?m)"
    by (auto simp: calculateIntensityScore_def specIntensity_def Let_def metricsOf_def fmul_commute)
  show ?thesis
    by (simp only: scoreOf_def doubleScore_def f g d i Math_round_half_up clampScore_min_max)
qed

lemma showNat_0: "showNat 0 = ''0''"
  by code_simp

lemma showInt_28: "showInt 28 = ''28''"
  by code_simp

lemma fl_1_4: "fl (14 / 10) = 3152519739159347 / 2251799813685248"
  by code_simp

lemma metricsOf_Nil:
  "metricsOf [] ps pe =
     \<lparr>totalDays = 28, daysWithActivity = 0, longestGap = 28, averageSessionsPerActiveDay = 0,
      weeklyDistribution = [0, 0, 0, 0, 0, 0, 0], totalSessions = 0\<rparr>"
  by (simp add: metricsOf_def calculateLongestGap_def)

lemma scoreOf_Nil: "scoreOf (metricsOf [] ps pe) = 0"
  by (simp add: metricsOf_Nil scoreOf_def calculateFrequencyScore_def calculateGapScore_def
        calculateDistributionScore_def calculateIntensityScore_def fdiv_def fmul_def fadd_def
        fl_zero Math_round_def)

lemma explanations_Nil:
  "generateExplanations (metricsOf [] ps pe) =
     [''You trained on 0 out of 28 days'', ''Longest break: 28 days'']"
  unfolding generateExplanations_def fl_1_4
  by (simp add: metricsOf_Nil activeWeekdays_def showNat_0 showInt_28)

lemma chartOf_Nil: "map count_d (chartOf [] d0) = replicate 28 0"
  by (simp add: chartOf_def comp_def map_replicate_const del: upt_Suc)

lemma walkthrough_score:
  "case calculateConsistencyScore walkthrough walkthroughReference of
     Inl e \<Rightarrow> False
   | Inr r \<Rightarrow> score r = 48 \<and> explanations r ! 0 = ''You trained on 9 out of 28 days''"
  by code_simp

lemma walkthrough_metrics:
  "case calculateMetrics walkthrough (19741 * msPerDay) (19768 * msPerDay + (msPerDay - 1)) of
     Inl e \<Rightarrow> False
   | Inr m \<Rightarrow> daysWithActivity m = 9 \<and> totalSessions m = 10 \<and> longestGap m = 4
       \<and> activeWeekdays (weeklyDistribution m) = 4
       \<and> \<bar>calculateFrequencyScore m - 1607 / 100\<bar> < 1 / 100
       \<and> \<bar>calculateGapScore m - 2273 / 100\<bar> < 1 / 100
       \<and> \<bar>calculateDistributionScore m - 857 / 100\<bar> < 1 / 100
       \<and> \<bar>calculateIntensityScore m - 11 / 10\<bar> < 1 / 10"
  by code_simp

lemma gapFiveSessions_score:
  "case calculateConsistencyScore gapFiveSessions walkthroughReference of
     Inl e \<Rightarrow> False
   | Inr r \<Rightarrow> score r = 58"
  by code_simp

lemma gapFiveSessions_metrics:
  "case calculateMetrics gapFiveSessions (19741 * msPerDay) (19768 * msPerDay + (msPerDay - 1)) of
     Inl e \<Rightarrow> False
   | Inr m \<Rightarrow> daysWithActivity m = 11 \<and> longestGap m = 5
       \<and> activeWeekdays (weeklyDistribution m) = 6 \<and> totalSessions m = 16"
  by code_simp

lemma halfSumSessions_score:
  "case calculateConsistencyScore halfSumSessions walkthroughReference of
     Inl e \<Rightarrow> False
   | Inr r \<Rightarrow> score r = 57"
  by code_simp

lemma halfSumSessions_metrics:
  "case calculateMetrics halfSumSessions (19741 * msPerDay) (19768 * msPerDay + (msPerDay - 1)) of
     Inl e \<Rightarrow> False
   | Inr m \<Rightarrow> daysWithActivity m = 11 \<and> longestGap m = 2
       \<and> activeWeekdays (weeklyDistribution m) = 6 \<and> totalSessions m = 11"
  by code_simp

lemma specScore_gap_five: "specScore 11 5 6 16 = 57"
  by code_simp

lemma exactScore_half_sum: "exactScore 11 2 6 11 = 58"
  by code_simp

lemma walkthrough_returns:
  "\<exists>r. calculateConsistencyScore walkthrough walkthroughReference = Inr r"
  unfolding calculateConsistencyScore_Inr [OF walkthrough_window] by blast

lemma walkthrough_representable: "representableWindow walkthroughReference"
  unfolding representableWindow_iff using walkthrough_window by blast

section \<open>The score\<close>

text \<open>
  C1, as stated: for every list of sessions and every reference date, the score that
  \<open>calculateConsistencyScore\<close> returns is the sum of the four subscores of the metrics of
  the window (frequency \<open>(d / 28) * 50\<close>; gap 25 up to 3 days, 0 from 14 days, else
  \<open>25 * (14 - g) / 11\<close>; distribution \<open>(w / 7) * 15\<close>; intensity 0 without activity
  or for a ratio up to 1, 10 from a ratio of 2, else \<open>10 * (ratio - 1)\<close>), rounded half up
  and then clamped to the range from 0 to 100. The code takes the quotient by 11 before
  the product by 25 and adds doubles. For 11 active days, a longest gap of 5 days, 6
  weekdays and 16 sessions it returns 58, where the formulas in doubles in the order
  written give 57; for 11 active days, a longest gap of 2 days, 6 weekdays and 11 sessions
  it returns 57, where the exact sum 57.5 rounds half up to 58.
\<close>

theorem score_formula_as_written_fails:
  "(case calculateConsistencyScore gapFiveSessions walkthroughReference of
      Inl e \<Rightarrow> False
    | Inr r \<Rightarrow> score r = 58)
   \<and> (case calculateMetrics gapFiveSessions (19741 * msPerDay)
              (19768 * msPerDay + (msPerDay - 1)) of
         Inl e \<Rightarrow> False
       | Inr m \<Rightarrow> daysWithActivity m = 11 \<and> longestGap m = 5
           \<and> activeWeekdays (weeklyDistribution m) = 6 \<and> totalSessions m = 16)
   \<and> specScore 11 5 6 16 = 57
   \<and> (case calculateConsistencyScore halfSumSessions walkthroughReference of
         Inl e \<Rightarrow> False
       | Inr r \<Rightarrow> score r = 57)
   \<and> (case calculateMetrics halfSumSessions (19741 * msPerDay)
              (19768 * msPerDay + (msPerDay - 1)) of
         Inl e \<Rightarrow> False
       | Inr m \<Rightarrow> daysWithActivity m = 11 \<and> longestGap m = 2
           \<and> activeWeekdays (weeklyDistribution m) = 6 \<and> totalSessions m = 11)
   \<and> exactScore 11 2 6 11 = 58"
  using gapFiveSessions_score gapFiveSessions_metrics specScore_gap_five
    halfSumSessions_score halfSumSessions_metrics exactScore_half_sum
  by (intro conjI)

text \<open>
  C1, amended: for every list of sessions and every reference date, the score that
  \<open>calculateConsistencyScore\<close> returns is the sum, in doubles and from left to right, of
  the four subscores of the metrics of the window, each computed in doubles (frequency
  \<open>(d / 28) * 50\<close>; gap 25 up to 3 days, 0 from 14 days, else \<open>((14 - g) / 11) * 25\<close>,
  the quotient first; distribution \<open>(w / 7) * 15\<close>; intensity 0 without activity or for a
  ratio up to 1, 10 from a ratio of 2, else \<open>10 * (ratio - 1)\<close>), that double sum rounded
  half up and then clamped to the range from 0 to 100; the returned score lies in that
  range.
\<close>

theorem score_formula:
  assumes "calculateConsistencyScore sessions referenceDate = Inr r"
  shows "\<exists>ps pe m. windowEnd referenceDate = Some pe \<and> windowStart (Some pe) = Some ps
           \<and> calculateMetrics sessions ps pe = Inr m
           \<and> score r = doubleScore (daysWithActivity m) (longestGap m)
                          (activeWeekdays (weeklyDistribution m)) (totalSessions m)
           \<and> 0 \<le> score r \<and> score r \<le> 100"
proof -
  obtain ps pe where w: "windowEnd referenceDate = Some pe" "windowStart (Some pe) = Some ps"
    using assms by (rule calculateConsistencyScore_InrD)
  let ?m = "metricsOf (startTimes ps pe sessions) ps pe"
  have "score r = scoreOf ?m"
    using assms unfolding calculateConsistencyScore_Inr [OF w] by auto
  moreover have "0 \<le> scoreOf ?m" "scoreOf ?m \<le> 100"
    by (simp_all add: scoreOf_def)
  ultimately show ?thesis
    using w calculateMetrics_closed [of sessions ps pe] scoreOf_spec [of "startTimes ps pe sessions" ps pe]
    by auto
qed

theorem score_formula_witness:
  "\<exists>r. calculateConsistencyScore gapFiveSessions walkthroughReference = Inr r
       \<and> (\<exists>ps pe m. windowEnd walkthroughReference = Some pe \<and> windowStart (Some pe) = Some ps
             \<and> calculateMetrics gapFiveSessions ps pe = Inr m
             \<and> score r = doubleScore (daysWithActivity m) (longestGap m)
                            (activeWeekdays (weeklyDistribution m)) (totalSessions m)
             \<and> 0 \<le> score r \<and> score r \<le> 100)"
proof -
  obtain r where r: "calculateConsistencyScore gapFiveSessions walkthroughReference = Inr r"
    unfolding calculateConsistencyScore_Inr [OF walkthrough_window] by blast
  from score_formula [OF r] r show ?thesis
    by blast
qed

text \<open>
  C2. On the documented walkthrough (9 active days out of 28, 10 sessions, longest gap 4
  days, 4 active weekdays) the subscores are about 16.07, 22.73, 8.57 and 1.1, the score
  is exactly 48, and the first explanation is \<open>You trained on 9 out of 28 days\<close>.
\<close>

theorem walkthrough_result:
  "(case calculateConsistencyScore walkthrough walkthroughReference of
      Inl e \<Rightarrow> False
    | Inr r \<Rightarrow> score r = 48 \<and> explanations r ! 0 = ''You trained on 9 out of 28 days'')
   \<and> (case calculateMetrics walkthrough (19741 * msPerDay) (19768 * msPerDay + (msPerDay - 1)) of
         Inl e \<Rightarrow> False
       | Inr m \<Rightarrow> daysWithActivity m = 9 \<and> totalSessions m = 10 \<and> longestGap m = 4
           \<and> activeWeekdays (weeklyDistribution m) = 4
           \<and> \<bar>calculateFrequencyScore m - 1607 / 100\<bar> < 1 / 100
           \<and> \<bar>calculateGapScore m - 2273 / 100\<bar> < 1 / 100
           \<and> \<bar>calculateDistributionScore m - 857 / 100\<bar> < 1 / 100
           \<and> \<bar>calculateIntensityScore m - 11 / 10\<bar> < 1 / 10)"
  using walkthrough_score walkthrough_metrics by (rule conjI)

section \<open>Gap analysis\<close>

text \<open>
  C3, as stated: for a non-empty bucket map the longest gap is the maximum of the leading
  gap (the days strictly between the date of the window start and the first active
  date), the interior gaps (the days between consecutive active dates, less one) and the
  trailing gap (the days strictly between the last active date and the date of the window
  end); for the empty map it is 28. The code counts the first and the last day of the
  window into the leading and the trailing gap when they are idle: with one session on the
  second day of the window it returns 26, where the statement gives 25.
\<close>

theorem longestGap_strictly_between_fails:
  "(case calculateMetrics [walkthroughSession (19742 * msPerDay + 10 * 3600000)]
           (19741 * msPerDay) (19768 * msPerDay + (msPerDay - 1)) of
      Inl e \<Rightarrow> False
    | Inr m \<Rightarrow> longestGap m = 26)
   \<and> calculateLongestGap [(IsoDate 19742, 1)] (19741 * msPerDay)
         (19768 * msPerDay + (msPerDay - 1)) = 26
   \<and> specLongestGap (activeDays [(IsoDate 19742, 1)]) 19741 19768 = 25"
  by code_simp

text \<open>
  C3, amended: for a non-empty bucket map whose dates lie in the 28-day window, the
  longest gap is the maximum of the leading gap (the days from the date of the window
  start up to, not including, the first active date), the interior gaps (the days between
  consecutive active dates, less one) and the trailing gap (the days after the last active
  date up to and including the date of the window end); it is at least 0; for the empty
  map it is 28.
\<close>

theorem longestGap_formula:
  assumes "pStart = s * msPerDay" and "pEnd = e * msPerDay + (msPerDay - 1)" and "e = s + 27"
    and "m \<noteq> []" and "\<forall>d\<in>set (activeDays m). s \<le> d \<and> d \<le> e"
  shows "calculateLongestGap [] pStart pEnd = 28
         \<and> calculateLongestGap m pStart pEnd =
             Max (set ((hd (activeDays m) - s) # (e - last (activeDays m))
                         # interiorGaps (activeDays m)))
         \<and> 0 \<le> calculateLongestGap m pStart pEnd"
proof -
  let ?ds = "activeDays m"
  let ?G = "set ((hd ?ds - s) # (e - last ?ds) # interiorGaps ?ds)"
  have "?ds \<noteq> []"
    using assms(4) by (metis activeDays_def length_0_conv length_map length_sort)
  then have "hd ?ds \<in> set ?ds"
    by simp
  then have lead: "0 \<le> hd ?ds - s"
    using assms(5) by simp
  have span: "e - s < 28"
    using assms(3) by simp
  have fin: "finite ?G" and mem: "hd ?ds - s \<in> ?G"
    by simp_all
  have "hd ?ds - s \<le> Max ?G"
    using fin mem by (rule Max_ge)
  then have nonneg: "0 \<le> Max ?G"
    using lead by linarith
  have "calculateLongestGap m pStart pEnd = Max (set (0 # (hd ?ds - s) # (e - last ?ds) # interiorGaps ?ds))"
    unfolding assms(1,2) using assms(4,5) span by (rule calculateLongestGap_days)
  also have "\<dots> = Max (insert 0 ?G)"
    by simp
  also have "\<dots> = max 0 (Max ?G)"
    by (rule Max_insert) simp_all
  also have "\<dots> = Max ?G"
    using nonneg by simp
  finally have eq: "calculateLongestGap m pStart pEnd = Max ?G" .
  moreover have "calculateLongestGap [] pStart pEnd = 28"
    by (simp add: calculateLongestGap_def)
  ultimately show ?thesis
    using nonneg by simp
qed

theorem longestGap_formula_witness:
  "calculateLongestGap [(IsoDate 19742, 1)] (19741 * msPerDay) (19768 * msPerDay + (msPerDay - 1)) = 26"
proof -
  have inside: "\<forall>d\<in>set (activeDays [(IsoDate 19742, 1)]). 19741 \<le> d \<and> d \<le> 19768"
    by (simp add: activeDays_def)
  have nonempty: "[(IsoDate 19742, 1::nat)] \<noteq> []"
    by simp
  have span: "(19768::int) = 19741 + 27"
    by simp
  from longestGap_formula [OF refl refl span nonempty inside] show ?thesis
    by (simp add: activeDays_def interiorGaps_def)
qed

section \<open>Totality and the empty list\<close>

text \<open>
  C4, as stated: \<open>calculateConsistencyScore\<close> returns a result for every well-typed
  input. It does not: for an Invalid Date, and for a valid Date on the last day or within
  the first 27 days of the range of time values, the window is not representable and
  \<^verbatim>\<open>toISOString\<close> throws.
\<close>

theorem throws_on_invalid_reference:
  "calculateConsistencyScore [] None = Inl RangeError
   \<and> calculateConsistencyScore [] (Some 8640000000000000) = Inl RangeError
   \<and> calculateConsistencyScore [] (Some (- 8640000000000000)) = Inl RangeError"
  by code_simp

text \<open>
  C4, amended: \<open>calculateConsistencyScore\<close> returns a result, for any list of sessions,
  exactly when the reference date has a representable window; for such a reference date
  and the empty list the score is 0, the longest gap is 28, the explanations are
  \<open>You trained on 0 out of 28 days\<close> and \<open>Longest break: 28 days\<close>, and the chart
  has 28 entries, all with count 0.
\<close>

theorem returns_on_representable_window:
  "(\<exists>r. calculateConsistencyScore sessions referenceDate = Inr r) = representableWindow referenceDate
   \<and> (representableWindow referenceDate \<longrightarrow>
        (\<exists>r ps pe m. calculateConsistencyScore [] referenceDate = Inr r
           \<and> score r = 0
           \<and> explanations r = [''You trained on 0 out of 28 days'', ''Longest break: 28 days'']
           \<and> length (chartData r) = 28
           \<and> map count_d (chartData r) = replicate 28 0
           \<and> windowEnd referenceDate = Some pe \<and> windowStart (Some pe) = Some ps
           \<and> calculateMetrics [] ps pe = Inr m \<and> longestGap m = 28))"
proof (intro conjI impI)
  show "(\<exists>r. calculateConsistencyScore sessions referenceDate = Inr r) = representableWindow referenceDate"
    by (rule returns_iff)
next
  assume "representableWindow referenceDate"
  then obtain ps pe where w: "windowEnd referenceDate = Some pe" "windowStart (Some pe) = Some ps"
    unfolding representableWindow_iff by blast
  let ?r = "\<lparr>score = scoreOf (metricsOf [] ps pe),
              explanations = generateExplanations (metricsOf [] ps pe),
              chartData = chartOf [] (Day ps),
              periodStart = IsoDate (Day ps), periodEnd = IsoDate (Day pe)\<rparr>"
  have r: "calculateConsistencyScore [] referenceDate = Inr ?r"
    using calculateConsistencyScore_Inr [OF w, of "[]"] by (simp only: startTimes_Nil)
  have m: "calculateMetrics [] ps pe = Inr (metricsOf [] ps pe)"
    using calculateMetrics_closed [of "[]" ps pe] by (simp only: startTimes_Nil)
  have "score ?r = 0" "explanations ?r = [''You trained on 0 out of 28 days'', ''Longest break: 28 days'']"
    "length (chartData ?r) = 28" "map count_d (chartData ?r) = replicate 28 0"
    "longestGap (metricsOf [] ps pe) = 28"
    by (simp_all add: scoreOf_Nil explanations_Nil chartOf_Nil) (simp_all add: chartOf_def metricsOf_Nil)
  with r m w show "\<exists>r ps pe m. calculateConsistencyScore [] referenceDate = Inr r
           \<and> score r = 0
           \<and> explanations r = [''You trained on 0 out of 28 days'', ''Longest break: 28 days'']
           \<and> length (chartData r) = 28
           \<and> map count_d (chartData r) = replicate 28 0
           \<and> windowEnd referenceDate = Some pe \<and> windowStart (Some pe) = Some ps
           \<and> calculateMetrics [] ps pe = Inr m \<and> longestGap m = 28"
    by blast
qed

theorem returns_on_representable_window_witness:
  "representableWindow walkthroughReference
   \<and> (\<exists>r. calculateConsistencyScore walkthrough walkthroughReference = Inr r)
   \<and> (\<exists>r ps pe m. calculateConsistencyScore [] walkthroughReference = Inr r
          \<and> score r = 0
          \<and> explanations r = [''You trained on 0 out of 28 days'', ''Longest break: 28 days'']
          \<and> length (chartData r) = 28
          \<and> map count_d (chartData r) = replicate 28 0
          \<and> windowEnd walkthroughReference = Some pe \<and> windowStart (Some pe) = Some ps
          \<and> calculateMetrics [] ps pe = Inr m \<and> longestGap m = 28)"
  using returns_on_representable_window [of walkthrough walkthroughReference]
    walkthrough_representable
  by simp

section \<open>The chart\<close>

text \<open>
  C5. For every list of sessions and every reference date, the chart that
  \<open>calculateConsistencyScore\<close> returns has exactly 28 entries, one for each UTC calendar
  date from the window start (the midnight 27 days before the UTC day of the reference
  date) to the window end (the UTC day of the reference date), in ascending consecutive
  order; the count of an entry is the bucket of its date, or 0 when the date has none.
\<close>

theorem chart_dense:
  assumes "calculateConsistencyScore sessions referenceDate = Inr r"
  shows "\<exists>t ps pe buckets weekly.
           referenceDate = Some t \<and> ps = (Day t - 27) * msPerDay
           \<and> pe = Day t * msPerDay + (msPerDay - 1)
           \<and> groupSessions (filter (inPeriod ps pe) sessions) ([], [0, 0, 0, 0, 0, 0, 0])
               = Inr (buckets, weekly)
           \<and> length (chartData r) = 28
           \<and> chartData r =
               map (\<lambda>i. \<lparr>date = IsoDate (Day t - 27 + int i),
                          count_d = orZero (Map_get buckets (IsoDate (Day t - 27 + int i)))\<rparr>)
                 [0..<28]
           \<and> periodStart r = IsoDate (Day t - 27) \<and> periodEnd r = IsoDate (Day t)"
proof -
  obtain ps pe where w: "windowEnd referenceDate = Some pe" "windowStart (Some pe) = Some ps"
    using assms by (rule calculateConsistencyScore_InrD)
  obtain t where t: "referenceDate = Some t" "ps = (Day t - 27) * msPerDay"
      "pe = Day t * msPerDay + (msPerDay - 1)"
    using window_bounds [OF w] by blast
  have ds: "Day ps = Day t - 27" "Day pe = Day t"
    using window_days(2) [OF w] t(2) by (simp_all add: Day_midnight)
  let ?ts = "startTimes ps pe sessions"
  have r: "r = \<lparr>score = scoreOf (metricsOf ?ts ps pe),
                explanations = generateExplanations (metricsOf ?ts ps pe),
                chartData = chartOf ?ts (Day ps),
                periodStart = IsoDate (Day ps), periodEnd = IsoDate (Day pe)\<rparr>"
    using assms unfolding calculateConsistencyScore_Inr [OF w] by simp
  have g: "groupSessions (filter (inPeriod ps pe) sessions) ([], [0, 0, 0, 0, 0, 0, 0])
             = Inr (fold dayStep ?ts [], fold weekStep ?ts [0, 0, 0, 0, 0, 0, 0])"
    by (rule groupSessions_fold [OF startDate_relevant])
  have c: "chartOf ?ts (Day ps) =
             map (\<lambda>i. \<lparr>date = IsoDate (Day t - 27 + int i),
                        count_d = orZero (Map_get (fold dayStep ?ts []) (IsoDate (Day t - 27 + int i)))\<rparr>)
               [0..<28]"
    by (simp only: chartOf_def count_buckets ds)
  have l: "length (chartOf ?ts (Day ps)) = 28"
    by (simp add: chartOf_def)
  have cd: "chartData r =
             map (\<lambda>i. \<lparr>date = IsoDate (Day t - 27 + int i),
                        count_d = orZero (Map_get (fold dayStep ?ts []) (IsoDate (Day t - 27 + int i)))\<rparr>)
               [0..<28]"
    using c by (simp add: r)
  have ln: "length (chartData r) = 28"
    using l by (simp add: r)
  have p: "periodStart r = IsoDate (Day t - 27)" "periodEnd r = IsoDate (Day t)"
    by (simp_all add: r ds)
  show ?thesis
    using t g cd ln p by blast
qed

theorem chart_dense_witness:
  "\<exists>r. calculateConsistencyScore walkthrough walkthroughReference = Inr r
       \<and> (\<exists>t ps pe buckets weekly.
             walkthroughReference = Some t \<and> ps = (Day t - 27) * msPerDay
             \<and> pe = Day t * msPerDay + (msPerDay - 1)
             \<and> groupSessions (filter (inPeriod ps pe) walkthrough) ([], [0, 0, 0, 0, 0, 0, 0])
                 = Inr (buckets, weekly)
             \<and> length (chartData r) = 28
             \<and> chartData r =
                 map (\<lambda>i. \<lparr>date = IsoDate (Day t - 27 + int i),
                            count_d = orZero (Map_get buckets (IsoDate (Day t - 27 + int i)))\<rparr>)
                   [0..<28]
             \<and> periodStart r = IsoDate (Day t - 27) \<and> periodEnd r = IsoDate (Day t))"
proof -
  obtain r where r: "calculateConsistencyScore walkthrough walkthroughReference = Inr r"
    using walkthrough_returns by blast
  from chart_dense [OF r] r show ?thesis
    by blast
qed

text \<open>
  C6. For every list of sessions and every reference date, the counts of the 28 chart
  entries add up to the number of sessions whose start lies in the window, both ends
  included, which is also the \<open>totalSessions\<close> of the metrics the score is computed from.
\<close>

theorem chart_sum:
  assumes "calculateConsistencyScore sessions referenceDate = Inr r"
  shows "\<exists>ps pe m. windowEnd referenceDate = Some pe \<and> windowStart (Some pe) = Some ps
           \<and> calculateMetrics sessions ps pe = Inr m
           \<and> sum_list (map count_d (chartData r)) =
               length (filter (\<lambda>s. case startDate s of
                                      None \<Rightarrow> False
                                    | Some t \<Rightarrow> ps \<le> t \<and> t \<le> pe) sessions)
           \<and> totalSessions m = sum_list (map count_d (chartData r))"
proof -
  obtain ps pe where w: "windowEnd referenceDate = Some pe" "windowStart (Some pe) = Some ps"
    using assms by (rule calculateConsistencyScore_InrD)
  let ?ts = "startTimes ps pe sessions"
  have "chartData r = chartOf ?ts (Day ps)"
    using assms unfolding calculateConsistencyScore_Inr [OF w] by auto
  moreover have "sum_list (map count_d (chartOf ?ts (Day ps))) = length ?ts"
  proof (rule sum_chartOf, rule ballI)
    fix t assume "t \<in> set ?ts"
    then have "ps \<le> t" "t \<le> pe"
      using startTimes_bounds by blast+
    then have "Day ps \<le> Day t" "Day t \<le> Day pe"
      by (simp_all add: Day_mono)
    then show "Day ps \<le> Day t \<and> Day t \<le> Day ps + 27"
      using window_days(2) [OF w] by simp
  qed
  moreover have "totalSessions (metricsOf ?ts ps pe) = length ?ts"
    by (simp add: metricsOf_def)
  ultimately show ?thesis
    using w calculateMetrics_closed [of sessions ps pe] length_startTimes [of ps pe sessions]
    by auto
qed

theorem chart_sum_witness:
  "\<exists>r. calculateConsistencyScore walkthrough walkthroughReference = Inr r
       \<and> (\<exists>ps pe m. windowEnd walkthroughReference = Some pe \<and> windowStart (Some pe) = Some ps
             \<and> calculateMetrics walkthrough ps pe = Inr m
             \<and> sum_list (map count_d (chartData r)) =
                 length (filter (\<lambda>s. case startDate s of
                                        None \<Rightarrow> False
                                      | Some t \<Rightarrow> ps \<le> t \<and> t \<le> pe) walkthrough)
             \<and> totalSessions m = sum_list (map count_d (chartData r)))"
proof -
  obtain r where r: "calculateConsistencyScore walkthrough walkthroughReference = Inr r"
    using walkthrough_returns by blast
  from chart_sum [OF r] r show ?thesis
    by blast
qed

section \<open>Order independence\<close>

text \<open>
  C7. For every list of sessions, every permutation of it and every reference date,
  \<open>calculateConsistencyScore\<close> returns the same on both lists: the same score, the same
  explanations in the same order, the same chart and the same period, or the same error.
\<close>

theorem order_independent:
  assumes "mset sessions = mset sessions'"
  shows "calculateConsistencyScore sessions referenceDate
           = calculateConsistencyScore sessions' referenceDate"
proof (cases referenceDate rule: window_cases)
  case invalid
  then show ?thesis
    by (simp add: calculateConsistencyScore_Inl)
next
  case (valid ps pe)
  have "mset (startTimes ps pe sessions) = mset (startTimes ps pe sessions')"
    using assms by (rule mset_startTimes)
  then show ?thesis
    unfolding calculateConsistencyScore_Inr [OF valid]
    by (simp add: metricsOf_mset [of "startTimes ps pe sessions" "startTimes ps pe sessions'"]
          chartOf_mset [of "startTimes ps pe sessions" "startTimes ps pe sessions'"])
qed

theorem order_independent_witness:
  "mset (rev walkthrough) = mset walkthrough
   \<and> calculateConsistencyScore (rev walkthrough) walkthroughReference
       = calculateConsistencyScore walkthrough walkthroughReference"
proof -
  have p: "mset (rev walkthrough) = mset walkthrough"
    by simp
  from order_independent [OF p] p show ?thesis
    by simp
qed

section \<open>The ends of the window\<close>

text \<open>
  C8. The filter includes both ends of the window: a session that starts exactly at the
  window start (the midnight of the first day) or exactly at the window end (23:59:59.999
  of the last day), wherever it stands in the list, adds one to the total of sessions of
  the metrics and one to the count of the first, respectively the last, chart entry.
\<close>

theorem boundary_sessions_counted:
  assumes "windowEnd referenceDate = Some pe" and "windowStart (Some pe) = Some ps"
    and "startDate s = Some ps \<or> startDate s = Some pe"
  shows "\<exists>r r' m m'.
           calculateConsistencyScore (xs @ ys) referenceDate = Inr r
           \<and> calculateConsistencyScore (xs @ s # ys) referenceDate = Inr r'
           \<and> calculateMetrics (xs @ ys) ps pe = Inr m
           \<and> calculateMetrics (xs @ s # ys) ps pe = Inr m'
           \<and> totalSessions m' = totalSessions m + 1
           \<and> (let i = (if startDate s = Some ps then 0 else 27)
               in chartData r' =
                    (chartData r)[i := \<lparr>date = date (chartData r ! i),
                                         count_d = count_d (chartData r ! i) + 1\<rparr>])"
proof -
  let ?i = "if startDate s = Some ps then 0 else 27 :: nat"
  have span: "pe = ps + 28 * msPerDay - 1" and days: "Day pe = Day ps + 27"
    using window_days [OF assms(1,2)] by simp_all
  then have le: "ps \<le> pe"
    using msPerDay_pos by simp
  obtain t where t: "startDate s = Some t" "ps \<le> t" "t \<le> pe" "Day t = Day ps + int ?i"
    using assms(3) le days by (cases "startDate s = Some ps") auto
  let ?a = "startTimes ps pe xs" and ?b = "startTimes ps pe ys"
  have without: "startTimes ps pe (xs @ ys) = ?a @ ?b"
    by (rule startTimes_append)
  have with_s: "startTimes ps pe (xs @ s # ys) = ?a @ t # ?b"
    using t by (simp add: startTimes_append startTimes_Cons_in)
  have chart: "chartOf (?a @ t # ?b) (Day ps) =
                 (chartOf (?a @ ?b) (Day ps))
                   [?i := \<lparr>date = date (chartOf (?a @ ?b) (Day ps) ! ?i),
                            count_d = count_d (chartOf (?a @ ?b) (Day ps) ! ?i) + 1\<rparr>]"
    using t(4) by (intro chartOf_insert) simp_all
  have total: "totalSessions (metricsOf (?a @ t # ?b) ps pe) = totalSessions (metricsOf (?a @ ?b) ps pe) + 1"
    by (simp add: metricsOf_def)
  show ?thesis
    using chart total
    unfolding calculateConsistencyScore_Inr [OF assms(1,2)] calculateMetrics_closed without with_s
    by (simp add: Let_def)
qed

theorem boundary_sessions_counted_witness:
  "\<exists>r r' m m'.
     calculateConsistencyScore ([] @ walkthrough) walkthroughReference = Inr r
     \<and> calculateConsistencyScore ([] @ walkthroughSession (19768 * msPerDay + (msPerDay - 1)) # walkthrough)
           walkthroughReference = Inr r'
     \<and> calculateMetrics ([] @ walkthrough) (19741 * msPerDay) (19768 * msPerDay + (msPerDay - 1)) = Inr m
     \<and> calculateMetrics ([] @ walkthroughSession (19768 * msPerDay + (msPerDay - 1)) # walkthrough)
           (19741 * msPerDay) (19768 * msPerDay + (msPerDay - 1)) = Inr m'
     \<and> totalSessions m' = totalSessions m + 1
     \<and> chartData r' =
          (chartData r)[27 := \<lparr>date = date (chartData r ! 27),
                                count_d = count_d (chartData r ! 27) + 1\<rparr>]"
proof -
  have s: "startDate (walkthroughSession (19768 * msPerDay + (msPerDay - 1)))
             = Some (19768 * msPerDay + (msPerDay - 1))"
    by (simp add: walkthroughSession_def)
  have n: "Some (19768 * msPerDay + (msPerDay - 1)) \<noteq> Some (19741 * msPerDay)"
    by (simp add: msPerDay_def)
  from boundary_sessions_counted [OF walkthrough_window disjI2 [OF s], of "[]" walkthrough]
  show ?thesis
    unfolding s Let_def if_not_P [OF n] .
qed

section \<open>Explanations\<close>

text \<open>
  C9. For every metrics value, \<open>generateExplanations\<close> yields the sentences in the fixed
  order: first the trained-on sentence; second the gap sentence, with the literals for a
  longest gap of 0 and of 1 and \<open>Longest break: n days\<close> otherwise; third the weekday-spread
  sentence chosen by the number \<open>d\<close> of active weekdays (\<open>d \<ge> 6\<close>, \<open>4 \<le> d < 6\<close>,
  \<open>0 < d < 4\<close>, and none for \<open>d = 0\<close>); last the intensity sentence, with the average
  rounded to one decimal place, present exactly when the average is at least the double 1.4.
\<close>

theorem generateExplanations_order:
  "generateExplanations m =
     [trainedSentence (daysWithActivity m), gapSentence (longestGap m)]
     @ spreadSentence (activeWeekdays (weeklyDistribution m))
     @ intensitySentence (averageSessionsPerActiveDay m)"
  by (simp add: generateExplanations_def trainedSentence_def gapSentence_def
        spreadSentence_def intensitySentence_def Let_def)

end
